theory Spec2Isabelle
  imports Complex_Main
begin

section \<open>The world the service runs in\<close>

text \<open>
  The service (class \<open>SolanaService\<close>) talks to two RPC connections, to an HTTP price and
  token catalogue provider, to a clock and to a cache store. Every asynchronous method is
  modelled as a function from the world before the call to the outcome of the returned promise
  (\<open>Inl\<close> an exception, \<open>Inr\<close> the value) and the world after it, when the call and all it
  started have run to their end with no other task in between. What the providers answer is
  not fixed: they are functions of an outside state of any type, and the statements hold for
  all of them. Where the source runs calls at once (\<open>Promise.all\<close>, \<open>Promise.allSettled\<close>),
  the model runs them one after the other in the order they are started; the request queue,
  whose behaviour depends on when callers arrive, has a model of its own, driven by events.
  JavaScript numbers are modelled by \<open>real\<close> (no rounding, no \<open>NaN\<close>), counts, indices and
  milliseconds by \<open>nat\<close> or \<open>int\<close>, and JSON documents by the shapes the code reads.
\<close>

datatype error = Error string | NonError string

text \<open>\<open>error instanceof Error ? error.message : "Unknown error"\<close>\<close>

fun error_message :: "error \<Rightarrow> string" where
  "error_message (Error m) = m"
| "error_message (NonError v) = ''Unknown error''"

record fetch_log =
  fl_wallet_address :: string
  fl_timestamp :: nat
  fl_operation :: string
  fl_status :: string
  fl_error_details :: "string option"
  fl_response_time_ms :: nat

record token_price =
  tp_mint :: string
  tp_symbol :: string
  tp_name :: string
  tp_price :: real
  tp_image_url :: "string option"
  tp_last_updated :: nat
  tp_source :: string

text \<open>
  \<open>interface TokenAccount\<close>; the optional fields are \<open>None\<close> when absent. Record fields
  carry a prefix (\<open>ta_\<close>, \<open>tp_\<close>, \<open>wb_\<close>, \<open>fl_\<close>, ...) in front of the source's field name.
\<close>

record token_account =
  ta_mint :: string
  ta_amount :: real
  ta_decimals :: nat
  ta_symbol :: "string option"
  ta_name :: "string option"
  ta_usdValue :: "real option"

text \<open>
  A row of the wallet table. The source stores \<open>JSON.stringify(enhancedTokens)\<close>; the model
  keeps the list that is serialised (\<open>"[]"\<close> is the empty list).
\<close>

record wallet_balance =
  wb_wallet_address :: string
  wb_wallet_id :: string
  wb_sol_balance :: real
  wb_tokens :: "token_account list"
  wb_last_updated :: nat
  wb_fetch_status :: string
  wb_error_message :: "string option"
  wb_retry_count :: nat

text \<open>
  \<open>ext\<close> is the state of everything outside the process (the providers), \<open>clock\<close> is
  \<open>Date.now()\<close> in milliseconds, \<open>timers\<close> lists the delays awaited through
  \<open>setTimeout\<close> in the order they were awaited, \<open>fetched\<close> lists the URLs given to
  \<open>fetch\<close>, and the last three fields are the tables of the cache store.
\<close>

record 'e world =
  ext :: 'e
  clock :: nat
  timers :: "nat list"
  fetched :: "string list"
  fetch_logs :: "fetch_log list"
  token_prices :: "token_price list"
  wallet_balances :: "wallet_balance list"

type_synonym ('e, 'a) action = "'e world \<Rightarrow> (error + 'a) \<times> 'e world"

text \<open>\<open>await new Promise((resolve) => setTimeout(resolve, delay))\<close>\<close>

definition setTimeout :: "nat \<Rightarrow> 'e world \<Rightarrow> 'e world" where
  "setTimeout delay w = w\<lparr>clock := clock w + delay, timers := timers w @ [delay]\<rparr>"

section \<open>Retry wrapper with exponential backoff\<close>

text \<open>
  \<^verbatim>\<open>
  for (let attempt = 0; attempt < maxRetries; attempt++) {
    try { return await operation(); }
    catch (error) {
      if (attempt === maxRetries - 1) throw error;
      const delay = baseDelay * Math.pow(2, attempt);
      await new Promise((resolve) => setTimeout(resolve, delay));
    }
  }
  throw new Error("All retry attempts failed");
  \<close>
  \<open>withRetry_loop attempt\<close> is the loop from the iteration numbered \<open>attempt\<close> on.
\<close>

function withRetry_loop ::
  "nat \<Rightarrow> ('e, 'a) action \<Rightarrow> nat \<Rightarrow> nat \<Rightarrow> ('e, 'a) action" where
  "withRetry_loop attempt operation maxRetries baseDelay w =
     (if attempt < maxRetries then
        (case operation w of
           (Inr v, w1) \<Rightarrow> (Inr v, w1)
         | (Inl err, w1) \<Rightarrow>
             if attempt = maxRetries - 1 then (Inl err, w1)
             else withRetry_loop (attempt + 1) operation maxRetries baseDelay
                    (setTimeout (baseDelay * 2 ^ attempt) w1))
      else (Inl (Error ''All retry attempts failed''), w))"
  by pat_completeness auto
termination
  by (relation "measure (\<lambda>(attempt, operation, maxRetries, baseDelay, w). maxRetries - attempt)") auto

declare withRetry_loop.simps [simp del]

definition withRetry :: "('e, 'a) action \<Rightarrow> nat \<Rightarrow> nat \<Rightarrow> ('e, 'a) action" where
  "withRetry operation maxRetries baseDelay = withRetry_loop 0 operation maxRetries baseDelay"

text \<open>The defaults: \<open>this.maxRetries = 3\<close>, \<open>baseDelay = 1000\<close>.\<close>

definition maxRetries_default :: nat where
  "maxRetries_default = 3"

definition baseDelay_default :: nat where
  "baseDelay_default = 1000"

text \<open>
  The world in which the attempt numbered \<open>i\<close> starts when every earlier attempt failed:
  each failed attempt is followed by exactly one delay.
\<close>

fun attempt_world ::
  "('e, 'a) action \<Rightarrow> nat \<Rightarrow> nat \<Rightarrow> 'e world \<Rightarrow> 'e world" where
  "attempt_world operation baseDelay 0 w = w"
| "attempt_world operation baseDelay (Suc i) w =
     setTimeout (baseDelay * 2 ^ i) (snd (operation (attempt_world operation baseDelay i w)))"

section \<open>The cache store\<close>

text \<open>
  The store (\<open>db\<close>, module \<open>./database\<close>) is not part of the sources at hand; the four
  operations the service calls are taken from the specification.
\<close>

text \<open>
  Modelled from the spec: \<open>db.insertFetchLog\<close> is missing. ``FetchLogEntry: append-only audit
  record. Never mutated or deleted by the engine.''
\<close>

definition insertFetchLog :: "fetch_log \<Rightarrow> 'e world \<Rightarrow> 'e world" where
  "insertFetchLog entry w = w\<lparr>fetch_logs := fetch_logs w @ [entry]\<rparr>"

text \<open>
  Modelled from the spec: the table behind \<open>db.upsertTokenPrice\<close> is missing. ``TokenPrice
  keyed by mint; at most one row per mint. Upserted by mint; last-writer-wins.'' The row with
  the mint of the new row is replaced where it stands; a row with a new mint is added at the
  end.
\<close>

fun upsert_price :: "token_price \<Rightarrow> token_price list \<Rightarrow> token_price list" where
  "upsert_price p [] = [p]"
| "upsert_price p (q # qs) = (if tp_mint q = tp_mint p then p # qs else q # upsert_price p qs)"

text \<open>
  Modelled from the spec: \<open>db.upsertTokenPrice\<close> is missing; ``upsert: insert-or-update keyed
  by a unique natural key''.
\<close>

definition upsertTokenPrice :: "token_price \<Rightarrow> 'e world \<Rightarrow> 'e world" where
  "upsertTokenPrice p w = w\<lparr>token_prices := upsert_price p (token_prices w)\<rparr>"

text \<open>Modelled from the spec: \<open>db.getAllTokenPrices\<close> is missing; it returns every row.\<close>

definition getAllTokenPrices :: "'e world \<Rightarrow> token_price list" where
  "getAllTokenPrices w = token_prices w"

text \<open>
  Modelled from the spec: the table behind \<open>db.upsertWalletBalance\<close> is missing. ``Exactly
  one WalletRecord per address; upsert semantics on every fetch cycle (never duplicated).''
\<close>

fun upsert_wallet :: "wallet_balance \<Rightarrow> wallet_balance list \<Rightarrow> wallet_balance list" where
  "upsert_wallet r [] = [r]"
| "upsert_wallet r (q # qs) =
     (if wb_wallet_address q = wb_wallet_address r then r # qs else q # upsert_wallet r qs)"

text \<open>
  Modelled from the spec: \<open>db.upsertWalletBalance\<close> is missing; it is the upsert keyed by the
  address. None of the four operations is taken to throw.
\<close>

definition upsertWalletBalance :: "wallet_balance \<Rightarrow> 'e world \<Rightarrow> 'e world" where
  "upsertWalletBalance r w = w\<lparr>wallet_balances := upsert_wallet r (wallet_balances w)\<rparr>"

section \<open>The providers\<close>

text \<open>
  A call to a provider takes the state of the outside world and gives the outcome of the
  promise, the time the call took in milliseconds, and the new outside state. Nothing is
  assumed about the providers: every theorem holds for all such functions.
\<close>

type_synonym ('e, 'a) io = "'e \<Rightarrow> ((error + 'a) \<times> nat) \<times> 'e"

definition await :: "('e, 'a) io \<Rightarrow> ('e, 'a) action" where
  "await call w =
     (case call (ext w) of ((outcome, elapsed), e) \<Rightarrow> (outcome, w\<lparr>ext := e, clock := clock w + elapsed\<rparr>))"

text \<open>
  \<open>accountInfo.account.data.parsed?.info\<close> of one element of
  \<open>getParsedTokenAccountsByOwner(...).value\<close>: \<open>None\<close> when the account data is not parsed.
  \<open>uiAmount\<close> is a number or \<open>null\<close>.
\<close>

record parsed_info =
  pi_mint :: string
  pi_uiAmount :: "real option"
  pi_decimals :: nat

datatype program_id = TOKEN_PROGRAM_ID | TOKEN_2022_PROGRAM_ID

text \<open>
  The JSON documents the service reads, at the shapes it reads them. A token entry of the
  catalogue has optional \<open>address\<close>, \<open>symbol\<close>, \<open>name\<close> and \<open>logoURI\<close>; a price entry has an
  optional \<open>price\<close>, kept as the number \<open>parseFloat\<close> reads from it (\<open>None\<close> when the field is
  absent or falsy). A body is an array of token entries, one token entry, an object with an
  optional \<open>data\<close> object whose values are price entries or \<open>null\<close>, or \<open>null\<close>.
\<close>

record token_json =
  tj_address :: "string option"
  tj_symbol :: "string option"
  tj_name :: "string option"
  tj_logoURI :: "string option"

record price_json =
  pj_price :: "real option"

datatype json_body =
    TokenList "token_json list"
  | TokenObject token_json
  | PriceObject "(string \<times> price_json option) list option"
  | JsonNull

text \<open>A \<open>Response\<close>: \<open>response.ok\<close>, \<open>response.status\<close> and the outcome of \<open>response.json()\<close>.\<close>

record response =
  rsp_ok :: bool
  rsp_status :: nat
  rsp_json :: "error + json_body"

text \<open>
  The fields of the service and the functions of its environment. \<open>new_PublicKey\<close> is the
  constructor of \<open>PublicKey\<close>, which throws on a malformed address; \<open>type_error\<close> is the
  \<open>TypeError\<close> the engine throws when a property of \<open>null\<close> is read.
\<close>

record 'e service =
  new_PublicKey :: "string \<Rightarrow> error + string"
  connection_getBalance :: "string \<Rightarrow> ('e, nat) io"
  fallbackConnection_getBalance :: "string \<Rightarrow> ('e, nat) io"
  connection_getParsedTokenAccountsByOwner ::
    "string \<Rightarrow> program_id \<Rightarrow> ('e, parsed_info option list) io"
  fallbackConnection_getParsedTokenAccountsByOwner ::
    "string \<Rightarrow> program_id \<Rightarrow> ('e, parsed_info option list) io"
  global_fetch :: "string \<Rightarrow> ('e, response) io"
  this_jupiterApiUrl :: string
  this_jupiterTokensApiUrl :: string
  this_rateLimitDelay :: nat
  this_maxRetries :: nat
  type_error :: error

text \<open>\<open>await fetch(url)\<close>; the URL is noted in \<open>fetched\<close>.\<close>

definition fetch :: "'e service \<Rightarrow> string \<Rightarrow> ('e, response) action" where
  "fetch S url w = await (global_fetch S url) (w\<lparr>fetched := fetched w @ [url]\<rparr>)"

text \<open>
  \<open>await Promise.all([p, q])\<close> for two calls: \<open>p\<close> is started first and both run to
  completion, one after the other; the result is both values, or the rejection of \<open>p\<close>, or
  else the rejection of \<open>q\<close>. The interleaving of the two is not modelled: their durations
  add up, and a rejection is seen when both have ended.
\<close>

definition Promise_all2 :: "('e, 'a) action \<Rightarrow> ('e, 'b) action \<Rightarrow> ('e, 'a \<times> 'b) action" where
  "Promise_all2 p q w =
     (case p w of (r1, w1) \<Rightarrow>
        (case q w1 of (r2, w2) \<Rightarrow>
           (case r1 of
              Inl err \<Rightarrow> (Inl err, w2)
            | Inr a \<Rightarrow> (case r2 of Inl err \<Rightarrow> (Inl err, w2) | Inr b \<Rightarrow> (Inr (a, b), w2)))))"

section \<open>Rate limiting queue\<close>

text \<open>
  \<^verbatim>\<open>
  private async addToQueue<T>(operation: () => Promise<T>): Promise<T> {
    return new Promise((resolve, reject) => {
      this.requestQueue.push(async () => {
        try { const result = await operation(); resolve(result); }
        catch (error) { reject(error); }
      });
      if (!this.isProcessingQueue) { this.processQueue(); }
    });
  }
  private async processQueue(): Promise<void> {
    if (this.isProcessingQueue || this.requestQueue.length === 0) return;
    this.isProcessingQueue = true;
    while (this.requestQueue.length > 0) {
      const operation = this.requestQueue.shift();
      if (operation) {
        try { await operation(); } catch (error) { console.error(...); }
        if (this.requestQueue.length > 0) {
          await new Promise((resolve) => setTimeout(resolve, this.rateLimitDelay));
        }
      }
    }
    this.isProcessingQueue = false;
  }
  \<close>
  Callers submit while \<open>processQueue\<close> is suspended at one of its two \<open>await\<close>s, so the queue
  is a machine driven by two kinds of events: a caller submits an operation, or the promise an
  invocation of \<open>processQueue\<close> is waiting for settles. The code between two \<open>await\<close>s runs
  without interruption. A wrapper in \<open>requestQueue\<close> is the pair of a ticket, which stands for
  the promise \<open>addToQueue\<close> returned (its \<open>resolve\<close> and \<open>reject\<close>), and the operation. An
  operation acts on the world when its promise settles. The fields \<open>submitted\<close>, \<open>started\<close>
  and \<open>settled\<close> record what happened: the operations given to \<open>addToQueue\<close> (the ticket is
  the position), the tickets in the order their operations were called, and the outcome each
  caller's promise was resolved (\<open>Inr\<close>) or rejected (\<open>Inl\<close>) with.
\<close>

datatype ('e, 'a) suspended = AwaitOperation nat "('e, 'a) action" | AwaitDelay

record ('e, 'a) queue =
  requestQueue :: "(nat \<times> ('e, 'a) action) list"
  isProcessingQueue :: bool
  running :: "('e, 'a) suspended list"
  submitted :: "('e, 'a) action list"
  started :: "nat list"
  settled :: "(nat \<times> (error + 'a)) list"
  world_of :: "'e world"

text \<open>
  The head of the \<open>while\<close> loop: with an empty queue the loop ends and the flag is cleared
  (the invocation returns, \<open>None\<close>); otherwise the first wrapper is shifted off and called, and
  the invocation waits for it.
\<close>

definition loop_head :: "('e, 'a) queue \<Rightarrow> ('e, 'a) queue \<times> ('e, 'a) suspended option" where
  "loop_head q =
     (case requestQueue q of
        [] \<Rightarrow> (q\<lparr>isProcessingQueue := False\<rparr>, None)
      | (ticket, operation) # rest \<Rightarrow>
          (q\<lparr>requestQueue := rest, started := started q @ [ticket]\<rparr>,
           Some (AwaitOperation ticket operation)))"

text \<open>A call of \<open>processQueue\<close>, up to its first \<open>await\<close> or its return.\<close>

definition processQueue :: "('e, 'a) queue \<Rightarrow> ('e, 'a) queue" where
  "processQueue q =
     (if isProcessingQueue q \<or> requestQueue q = [] then q
      else (case loop_head (q\<lparr>isProcessingQueue := True\<rparr>) of
              (q1, None) \<Rightarrow> q1
            | (q1, Some s) \<Rightarrow> q1\<lparr>running := running q1 @ [s]\<rparr>))"

text \<open>The executor of the promise \<open>addToQueue\<close> returns.\<close>

definition submit :: "('e, 'a) action \<Rightarrow> ('e, 'a) queue \<Rightarrow> ('e, 'a) queue" where
  "submit operation q =
     (let q1 = q\<lparr>requestQueue := requestQueue q @ [(length (submitted q), operation)],
                 submitted := submitted q @ [operation]\<rparr>
      in if \<not> isProcessingQueue q1 then processQueue q1 else q1)"

text \<open>The invocation numbered \<open>k\<close> comes back to the head of its loop.\<close>

definition resume :: "nat \<Rightarrow> ('e, 'a) queue \<Rightarrow> ('e, 'a) queue" where
  "resume k q =
     (case loop_head q of
        (q1, None) \<Rightarrow> q1\<lparr>running := take k (running q1) @ drop (Suc k) (running q1)\<rparr>
      | (q1, Some s) \<Rightarrow> q1\<lparr>running := (running q1)[k := s]\<rparr>)"

text \<open>
  The promise the invocation numbered \<open>k\<close> waits for settles. After an operation, the wrapper
  has resolved or rejected the caller's promise (it never throws itself), and the invocation
  goes on to the delay when the queue is not empty; after a delay it is back at the loop head.
\<close>

definition settle :: "nat \<Rightarrow> nat \<Rightarrow> ('e, 'a) queue \<Rightarrow> ('e, 'a) queue" where
  "settle rateLimitDelay k q =
     (if k < length (running q) then
        (case running q ! k of
           AwaitOperation ticket operation \<Rightarrow>
             (case operation (world_of q) of
                (outcome, w1) \<Rightarrow>
                  (let q1 = q\<lparr>world_of := w1, settled := settled q @ [(ticket, outcome)]\<rparr>
                   in if requestQueue q1 \<noteq> [] then q1\<lparr>running := (running q1)[k := AwaitDelay]\<rparr>
                      else resume k q1))
         | AwaitDelay \<Rightarrow> resume k (q\<lparr>world_of := setTimeout rateLimitDelay (world_of q)\<rparr>))
      else q)"

datatype ('e, 'a) event = Submit "('e, 'a) action" | Settle nat

fun step :: "nat \<Rightarrow> ('e, 'a) queue \<Rightarrow> ('e, 'a) event \<Rightarrow> ('e, 'a) queue" where
  "step rateLimitDelay q (Submit operation) = submit operation q"
| "step rateLimitDelay q (Settle k) = settle rateLimitDelay k q"

definition run :: "nat \<Rightarrow> ('e, 'a) event list \<Rightarrow> ('e, 'a) queue \<Rightarrow> ('e, 'a) queue" where
  "run rateLimitDelay events q = foldl (step rateLimitDelay) q events"

definition idle_queue :: "'e world \<Rightarrow> ('e, 'a) queue" where
  "idle_queue w =
     \<lparr>requestQueue = [], isProcessingQueue = False, running = [], submitted = [], started = [],
      settled = [], world_of = w\<rparr>"

text \<open>
  \<open>await this.addToQueue(operation)\<close> for a caller alone with an idle queue: the operation is
  submitted and its promise settles.
\<close>

definition addToQueue :: "nat \<Rightarrow> ('e, 'a) action \<Rightarrow> ('e, 'a) action" where
  "addToQueue rateLimitDelay operation w =
     (let q = run rateLimitDelay [Submit operation, Settle 0] (idle_queue w)
      in (snd (last (settled q)), world_of q))"

section \<open>Balance and token accounts\<close>

text \<open>
  The operation \<open>getSOLBalance\<close> hands to \<open>withRetry\<close>: the primary connection, and the
  fallback connection when the primary call throws.
  \<^verbatim>\<open>
  try { return await this.connection.getBalance(publicKey); }
  catch (error) { return await this.fallbackConnection.getBalance(publicKey); }
  \<close>
\<close>

definition getBalance_attempt :: "'e service \<Rightarrow> string \<Rightarrow> ('e, nat) action" where
  "getBalance_attempt S publicKey w =
     (case await (connection_getBalance S publicKey) w of
        (Inr balance, w1) \<Rightarrow> (Inr balance, w1)
      | (Inl err, w1) \<Rightarrow> await (fallbackConnection_getBalance S publicKey) w1)"

text \<open>
  \<^verbatim>\<open>
  const startTime = Date.now();
  try {
    const publicKey = new PublicKey(address);
    const balance = await this.addToQueue(async () => {
      return await this.withRetry(async () => { ... });
    });
    const solBalance = balance / 1e9;
    db.insertFetchLog({ wallet_address: address, timestamp: new Date().toISOString(),
      operation: "balance", status: "success", response_time_ms: Date.now() - startTime });
    return solBalance;
  } catch (error) {
    db.insertFetchLog({ wallet_address: address, timestamp: new Date().toISOString(),
      operation: "balance", status: "error",
      error_details: error instanceof Error ? error.message : "Unknown error",
      response_time_ms: Date.now() - startTime });
    throw error;
  }
  \<close>
\<close>

definition getSOLBalance :: "'e service \<Rightarrow> string \<Rightarrow> ('e, real) action" where
  "getSOLBalance S address w =
     (let startTime = clock w in
      case (case new_PublicKey S address of
              Inl err \<Rightarrow> (Inl err, w)
            | Inr publicKey \<Rightarrow>
                addToQueue (this_rateLimitDelay S)
                  (withRetry (getBalance_attempt S publicKey) (this_maxRetries S) baseDelay_default) w)
      of
        (Inr balance, w1) \<Rightarrow>
          (Inr (real balance / 10 ^ 9),
           insertFetchLog
             \<lparr>fl_wallet_address = address, fl_timestamp = clock w1, fl_operation = ''balance'',
              fl_status = ''success'', fl_error_details = None,
              fl_response_time_ms = clock w1 - startTime\<rparr> w1)
      | (Inl err, w1) \<Rightarrow>
          (Inl err,
           insertFetchLog
             \<lparr>fl_wallet_address = address, fl_timestamp = clock w1, fl_operation = ''balance'',
              fl_status = ''error'', fl_error_details = Some (error_message err),
              fl_response_time_ms = clock w1 - startTime\<rparr> w1))"

text \<open>
  \<^verbatim>\<open>
  const [splTokens, token2022s] = await Promise.all([
    conn.getParsedTokenAccountsByOwner(publicKey, { programId: TOKEN_PROGRAM_ID }),
    conn.getParsedTokenAccountsByOwner(publicKey, { programId: TOKEN_2022_PROGRAM_ID }),
  ]);
  return [...splTokens.value, ...token2022s.value];
  \<close>
\<close>

definition getParsedTokenAccounts ::
  "(string \<Rightarrow> program_id \<Rightarrow> ('e, parsed_info option list) io) \<Rightarrow> string
     \<Rightarrow> ('e, parsed_info option list) action" where
  "getParsedTokenAccounts conn publicKey w =
     (case Promise_all2 (await (conn publicKey TOKEN_PROGRAM_ID))
             (await (conn publicKey TOKEN_2022_PROGRAM_ID)) w of
        (Inl err, w1) \<Rightarrow> (Inl err, w1)
      | (Inr (splTokens, token2022s), w1) \<Rightarrow> (Inr (splTokens @ token2022s), w1))"

text \<open>The operation \<open>getTokenAccounts\<close> hands to \<open>withRetry\<close>: primary, then fallback.\<close>

definition getTokenAccounts_attempt ::
  "'e service \<Rightarrow> string \<Rightarrow> ('e, parsed_info option list) action" where
  "getTokenAccounts_attempt S publicKey w =
     (case getParsedTokenAccounts (connection_getParsedTokenAccountsByOwner S) publicKey w of
        (Inr accounts, w1) \<Rightarrow> (Inr accounts, w1)
      | (Inl err, w1) \<Rightarrow>
          getParsedTokenAccounts (fallbackConnection_getParsedTokenAccountsByOwner S) publicKey w1)"

text \<open>
  \<^verbatim>\<open>
  for (const accountInfo of tokenAccounts) {
    const parsedInfo = accountInfo.account.data.parsed?.info;
    if (parsedInfo && parsedInfo.tokenAmount.uiAmount > 0) {
      tokens.push({ mint: parsedInfo.mint, amount: parsedInfo.tokenAmount.uiAmount,
                    decimals: parsedInfo.tokenAmount.decimals });
    }
  }
  \<close>
\<close>

fun collect_tokens :: "parsed_info option list \<Rightarrow> token_account list \<Rightarrow> token_account list" where
  "collect_tokens [] tokens = tokens"
| "collect_tokens (accountInfo # rest) tokens =
     (case accountInfo of
        None \<Rightarrow> collect_tokens rest tokens
      | Some parsedInfo \<Rightarrow>
          (case pi_uiAmount parsedInfo of
             None \<Rightarrow> collect_tokens rest tokens
           | Some uiAmount \<Rightarrow>
               if uiAmount > 0 then
                 collect_tokens rest
                   (tokens @ [\<lparr>ta_mint = pi_mint parsedInfo, ta_amount = uiAmount,
                               ta_decimals = pi_decimals parsedInfo, ta_symbol = None,
                               ta_name = None, ta_usdValue = None\<rparr>])
               else collect_tokens rest tokens))"

definition getTokenAccounts :: "'e service \<Rightarrow> string \<Rightarrow> ('e, token_account list) action" where
  "getTokenAccounts S address w =
     (let startTime = clock w in
      case (case new_PublicKey S address of
              Inl err \<Rightarrow> (Inl err, w)
            | Inr publicKey \<Rightarrow>
                addToQueue (this_rateLimitDelay S)
                  (withRetry (getTokenAccounts_attempt S publicKey) (this_maxRetries S)
                     baseDelay_default) w)
      of
        (Inr tokenAccounts, w1) \<Rightarrow>
          (Inr (collect_tokens tokenAccounts []),
           insertFetchLog
             \<lparr>fl_wallet_address = address, fl_timestamp = clock w1, fl_operation = ''tokens'',
              fl_status = ''success'', fl_error_details = None,
              fl_response_time_ms = clock w1 - startTime\<rparr> w1)
      | (Inl err, w1) \<Rightarrow>
          (Inl err,
           insertFetchLog
             \<lparr>fl_wallet_address = address, fl_timestamp = clock w1, fl_operation = ''tokens'',
              fl_status = ''error'', fl_error_details = Some (error_message err),
              fl_response_time_ms = clock w1 - startTime\<rparr> w1))"

section \<open>Token metadata\<close>

record token_metadata =
  md_symbol :: string
  md_name :: string
  md_logoURI :: "string option"

text \<open>\<open>x || d\<close> for an optional string \<open>x\<close>: absent and empty are falsy.\<close>

definition or_else :: "string option \<Rightarrow> string \<Rightarrow> string" where
  "or_else x d = (case x of None \<Rightarrow> d | Some s \<Rightarrow> if s = [] then d else s)"

text \<open>\<open>x || null\<close>\<close>

definition or_null :: "string option \<Rightarrow> string option" where
  "or_null x = (case x of None \<Rightarrow> None | Some s \<Rightarrow> if s = [] then None else Some s)"

text \<open>
  \<open>{ symbol: token.symbol || "Unknown", name: token.name || "Unknown Token",
  logoURI: token.logoURI || null }\<close>
\<close>

definition metadata_of :: "token_json \<Rightarrow> token_metadata" where
  "metadata_of token =
     \<lparr>md_symbol = or_else (tj_symbol token) ''Unknown'',
      md_name = or_else (tj_name token) ''Unknown Token'',
      md_logoURI = or_null (tj_logoURI token)\<rparr>"

definition unknown_metadata :: token_metadata where
  "unknown_metadata = \<lparr>md_symbol = ''Unknown'', md_name = ''Unknown Token'', md_logoURI = None\<rparr>"

text \<open>\<open>for (const token of allTokens) tokenMap.set(token.address, {...})\<close>\<close>

fun build_tokenMap ::
  "token_json list \<Rightarrow> (string option \<rightharpoonup> token_metadata) \<Rightarrow> (string option \<rightharpoonup> token_metadata)" where
  "build_tokenMap [] tokenMap = tokenMap"
| "build_tokenMap (token # rest) tokenMap =
     build_tokenMap rest (tokenMap(tj_address token \<mapsto> metadata_of token))"

text \<open>
  \<^verbatim>\<open>
  for (const mint of mints) {
    const tokenData = tokenMap.get(mint);
    if (tokenData) { metadata[mint] = tokenData; }
    else { metadata[mint] = { symbol: "Unknown", name: "Unknown Token", logoURI: null }; }
  }
  \<close>
\<close>

fun extract_metadata ::
  "string list \<Rightarrow> (string option \<rightharpoonup> token_metadata) \<Rightarrow> (string \<rightharpoonup> token_metadata)
     \<Rightarrow> (string \<rightharpoonup> token_metadata)" where
  "extract_metadata [] tokenMap metadata = metadata"
| "extract_metadata (m # rest) tokenMap metadata =
     extract_metadata rest tokenMap
       (metadata(m \<mapsto> (case tokenMap (Some m) of
                          Some tokenData \<Rightarrow> tokenData
                        | None \<Rightarrow> unknown_metadata)))"

text \<open>
  The callback of \<open>batch.map\<close>: one lookup of one mint. It never rejects; \<open>None\<close> is
  \<open>data: null\<close>. On an array or on an object without the three fields every field is
  \<open>undefined\<close> and the defaults are taken; reading a field of \<open>null\<close> throws and is caught.
\<close>

definition fetch_one :: "'e service \<Rightarrow> string \<Rightarrow> 'e world \<Rightarrow> token_metadata option \<times> 'e world" where
  "fetch_one S m w =
     (case fetch S (this_jupiterTokensApiUrl S @ ''/token/'' @ m) w of
        (Inl err, w1) \<Rightarrow> (None, w1)
      | (Inr response, w1) \<Rightarrow>
          if \<not> rsp_ok response then (None, w1)
          else (case rsp_json response of
                  Inl err \<Rightarrow> (None, w1)
                | Inr JsonNull \<Rightarrow> (None, w1)
                | Inr (TokenObject data) \<Rightarrow> (Some (metadata_of data), w1)
                | Inr (TokenList ts) \<Rightarrow> (Some unknown_metadata, w1)
                | Inr (PriceObject d) \<Rightarrow> (Some unknown_metadata, w1)))"

text \<open>\<open>await Promise.allSettled(batch.map(...))\<close>: the lookups of one chunk, in order.\<close>

fun fetch_batch ::
  "'e service \<Rightarrow> string list \<Rightarrow> 'e world \<Rightarrow> (string \<times> token_metadata option) list \<times> 'e world" where
  "fetch_batch S [] w = ([], w)"
| "fetch_batch S (m # rest) w =
     (case fetch_one S m w of
        (data, w1) \<Rightarrow>
          (case fetch_batch S rest w1 of (results, w2) \<Rightarrow> ((m, data) # results, w2)))"

text \<open>
  \<open>results.forEach((result) => { if (result.status === "fulfilled" && result.value.data)
  metadata[result.value.mint] = result.value.data; })\<close>
\<close>

fun assign_results ::
  "(string \<times> token_metadata option) list \<Rightarrow> (string \<rightharpoonup> token_metadata)
     \<Rightarrow> (string \<rightharpoonup> token_metadata)" where
  "assign_results [] metadata = metadata"
| "assign_results ((m, data) # rest) metadata =
     assign_results rest (case data of Some d \<Rightarrow> metadata(m \<mapsto> d) | None \<Rightarrow> metadata)"

definition metadata_batchSize :: nat where
  "metadata_batchSize = 10"

text \<open>
  \<^verbatim>\<open>
  for (let i = 0; i < mints.length; i += batchSize) {
    const batch = mints.slice(i, i + batchSize);
    ...
    if (i + batchSize < mints.length) {
      await new Promise((resolve) => setTimeout(resolve, 100));
    }
  }
  \<close>
\<close>

function fallback_loop ::
  "'e service \<Rightarrow> string list \<Rightarrow> nat \<Rightarrow> (string \<rightharpoonup> token_metadata) \<Rightarrow> 'e world
     \<Rightarrow> (string \<rightharpoonup> token_metadata) \<times> 'e world" where
  "fallback_loop S mints i metadata w =
     (if i < length mints then
        (case fetch_batch S (take metadata_batchSize (drop i mints)) w of
           (results, w1) \<Rightarrow>
             fallback_loop S mints (i + metadata_batchSize) (assign_results results metadata)
               (if i + metadata_batchSize < length mints then setTimeout 100 w1 else w1))
      else (metadata, w))"
  by pat_completeness auto
termination
  by (relation "measure (\<lambda>(S, mints, i, metadata, w). length mints - i)")
    (auto simp: metadata_batchSize_def)

declare fallback_loop.simps [simp del]

text \<open>
  \<open>getTokenMetadata\<close>: one fetch of the whole catalogue; when the fetch throws, the response is
  not ok, \<open>json()\<close> throws or the body cannot be iterated, the lookups one by one.
\<close>

definition getTokenMetadata ::
  "'e service \<Rightarrow> string list \<Rightarrow> ('e, string \<rightharpoonup> token_metadata) action" where
  "getTokenMetadata S mints w =
     (if mints = [] then (Inr Map.empty, w)
      else
        (let individually = (\<lambda>w1. case fallback_loop S mints 0 Map.empty w1 of
                                     (metadata, w2) \<Rightarrow> (Inr metadata, w2))
         in case fetch S (this_jupiterTokensApiUrl S) w of
              (Inl err, w1) \<Rightarrow> individually w1
            | (Inr response, w1) \<Rightarrow>
                if rsp_ok response then
                  (case rsp_json response of
                     Inr (TokenList allTokens) \<Rightarrow>
                       (Inr (extract_metadata mints (build_tokenMap allTokens Map.empty) Map.empty),
                        w1)
                   | Inr (TokenObject t) \<Rightarrow> individually w1
                   | Inr (PriceObject d) \<Rightarrow> individually w1
                   | Inr JsonNull \<Rightarrow> individually w1
                   | Inl err \<Rightarrow> individually w1)
                else individually w1))"

section \<open>Prices\<close>

definition SOL_MINT :: string where
  "SOL_MINT = ''So11111111111111111111111111111111111111112''"

definition SOL_LOGO :: string where
  "SOL_LOGO = ''https://raw.githubusercontent.com/solana-labs/token-list/main/assets/mainnet/So11111111111111111111111111111111111111112/logo.png''"

text \<open>\<open>cached?.price || 150\<close> for \<open>cached = db.getAllTokenPrices().find(p => p.mint === SOL_MINT)\<close>\<close>

definition cached_or_150 :: "'e world \<Rightarrow> real" where
  "cached_or_150 w =
     (case find (\<lambda>p. tp_mint p = SOL_MINT) (getAllTokenPrices w) of
        None \<Rightarrow> 150
      | Some cached \<Rightarrow> if tp_price cached = 0 then 150 else tp_price cached)"

text \<open>
  \<open>parseFloat(data.data?.[SOL_MINT]?.price || "0")\<close> for a body that is not \<open>null\<close>: an array or
  an object without \<open>data\<close> gives \<open>undefined\<close> at once.
\<close>

definition sol_price_of :: "json_body \<Rightarrow> real" where
  "sol_price_of data =
     (case data of
        PriceObject (Some entries) \<Rightarrow>
          (case map_of entries SOL_MINT of
             Some (Some info) \<Rightarrow> (case pj_price info of Some p \<Rightarrow> p | None \<Rightarrow> 0)
           | Some None \<Rightarrow> 0
           | None \<Rightarrow> 0)
      | PriceObject None \<Rightarrow> 0
      | TokenList ts \<Rightarrow> 0
      | TokenObject t \<Rightarrow> 0
      | JsonNull \<Rightarrow> 0)"

text \<open>
  \<^verbatim>\<open>
  try {
    const response = await fetch(`${this.jupiterApiUrl}?ids=${SOL_MINT}`);
    if (!response.ok) { throw new Error(`Jupiter API error: ${response.status}`); }
    const data = await response.json();
    const solPrice = parseFloat(data.data?.[SOL_MINT]?.price || "0");
    if (solPrice > 0) { db.upsertTokenPrice({ mint: SOL_MINT, symbol: "SOL", name: "Solana",
        price: solPrice, ..., last_updated: new Date().toISOString(), source: "jupiter" }); }
    return solPrice;
  } catch (error) {
    const cached = db.getAllTokenPrices().find(p => p.mint === SOL_MINT);
    return cached?.price || 150; // Fallback to $150
  }
  \<close>
\<close>

definition getSOLPrice :: "'e service \<Rightarrow> ('e, real) action" where
  "getSOLPrice S w =
     (case fetch S (this_jupiterApiUrl S @ ''?ids='' @ SOL_MINT) w of
        (Inl err, w1) \<Rightarrow> (Inr (cached_or_150 w1), w1)
      | (Inr response, w1) \<Rightarrow>
          if \<not> rsp_ok response then (Inr (cached_or_150 w1), w1)
          else (case rsp_json response of
                  Inl err \<Rightarrow> (Inr (cached_or_150 w1), w1)
                | Inr JsonNull \<Rightarrow> (Inr (cached_or_150 w1), w1)
                | Inr data \<Rightarrow>
                    (let solPrice = sol_price_of data in
                     (Inr solPrice,
                      if solPrice > 0 then
                        upsertTokenPrice
                          \<lparr>tp_mint = SOL_MINT, tp_symbol = ''SOL'', tp_name = ''Solana'',
                           tp_price = solPrice, tp_image_url = Some SOL_LOGO,
                           tp_last_updated = clock w1, tp_source = ''jupiter''\<rparr> w1
                      else w1))))"

text \<open>\<open>[...new Set(xs)]\<close>: the elements of \<open>xs\<close> in the order they first occur.\<close>

fun new_Set :: "string list \<Rightarrow> string list \<Rightarrow> string list" where
  "new_Set [] acc = acc"
| "new_Set (x # xs) acc = new_Set xs (if x \<in> set acc then acc else acc @ [x])"

text \<open>\<open>xs.join(sep)\<close>\<close>

fun join :: "string list \<Rightarrow> string \<Rightarrow> string" where
  "join [] sep = []"
| "join [x] sep = x"
| "join (x # y # ys) sep = x @ sep @ join (y # ys) sep"

text \<open>A number in a template literal: the decimal digits of a natural number.\<close>

function string_of_nat :: "nat \<Rightarrow> string" where
  "string_of_nat n =
     (if n < 10 then [''0123456789'' ! n]
      else string_of_nat (n div 10) @ [''0123456789'' ! (n mod 10)])"
  by pat_completeness auto
termination
  by (relation "measure (\<lambda>n. n)") auto

declare string_of_nat.simps [simp del]

record price_data =
  pd_price :: real
  pd_symbol :: string
  pd_name :: string
  pd_change24h :: "real option"
  pd_marketCap :: "real option"

text \<open>
  \<^verbatim>\<open>
  for (const [mint, priceInfo] of Object.entries(pricesData.data || {})) {
    const info = priceInfo as any;
    const tokenMetadata = metadata[mint] || {
      symbol: mint === SOL_MINT ? "SOL" : "Unknown",
      name: mint === SOL_MINT ? "Solana" : "Unknown Token" };
    prices[mint] = { price: parseFloat(info.price || "0"), symbol: tokenMetadata.symbol,
      name: tokenMetadata.name, change24h: undefined, marketCap: undefined };
    db.upsertTokenPrice({ mint, symbol: tokenMetadata.symbol, name: tokenMetadata.name,
      price: parseFloat(info.price || "0"), price_change_24h: undefined,
      market_cap: undefined, image_url: tokenMetadata.logoURI,
      last_updated: new Date().toISOString(), source: "jupiter" });
  }
  \<close>
  Reading \<open>info.price\<close> of a \<open>null\<close> entry throws.
\<close>

fun store_prices ::
  "'e service \<Rightarrow> (string \<rightharpoonup> token_metadata) \<Rightarrow> (string \<times> price_json option) list
     \<Rightarrow> (string \<rightharpoonup> price_data) \<Rightarrow> ('e, string \<rightharpoonup> price_data) action" where
  "store_prices S metadata [] prices w = (Inr prices, w)"
| "store_prices S metadata ((m, priceInfo) # rest) prices w =
     (case priceInfo of
        None \<Rightarrow> (Inl (type_error S), w)
      | Some info \<Rightarrow>
          (let tokenMetadata =
                 (case metadata m of
                    Some found \<Rightarrow> found
                  | None \<Rightarrow>
                      \<lparr>md_symbol = (if m = SOL_MINT then ''SOL'' else ''Unknown''),
                       md_name = (if m = SOL_MINT then ''Solana'' else ''Unknown Token''),
                       md_logoURI = None\<rparr>);
               price = (case pj_price info of Some p \<Rightarrow> p | None \<Rightarrow> 0)
           in store_prices S metadata rest
                (prices(m \<mapsto> \<lparr>pd_price = price, pd_symbol = md_symbol tokenMetadata,
                               pd_name = md_name tokenMetadata, pd_change24h = None,
                               pd_marketCap = None\<rparr>))
                (upsertTokenPrice
                   \<lparr>tp_mint = m, tp_symbol = md_symbol tokenMetadata,
                    tp_name = md_name tokenMetadata, tp_price = price,
                    tp_image_url = md_logoURI tokenMetadata, tp_last_updated = clock w,
                    tp_source = ''jupiter''\<rparr> w)))"

text \<open>The \<open>catch\<close> block of \<open>getTokenPrices\<close>: log the error and throw it again.\<close>

definition prices_failed :: "nat \<Rightarrow> error \<Rightarrow> ('e, 'a) action" where
  "prices_failed startTime err w =
     (Inl err,
      insertFetchLog
        \<lparr>fl_wallet_address = ''system'', fl_timestamp = clock w, fl_operation = ''prices'',
         fl_status = ''error'', fl_error_details = Some (error_message err),
         fl_response_time_ms = clock w - startTime\<rparr> w)"

text \<open>
  \<^verbatim>\<open>
  if (mints.length === 0) return {};
  const startTime = Date.now();
  try {
    const mintsWithSol = [...new Set([...mints, SOL_MINT])];
    const [pricesResponse, metadata] = await Promise.all([
      fetch(`${this.jupiterApiUrl}?ids=${mintsWithSol.join(",")}`),
      this.getTokenMetadata(mintsWithSol) ]);
    if (!pricesResponse.ok) { throw new Error(`Jupiter API error: ${pricesResponse.status}`); }
    const pricesData = await pricesResponse.json();
    ... the loop ...
    db.insertFetchLog({ wallet_address: "system", ..., operation: "prices", status: "success",
      response_time_ms: Date.now() - startTime });
    return prices;
  } catch (error) { db.insertFetchLog({ ... status: "error", ... }); throw error; }
  \<close>
\<close>

definition getTokenPrices :: "'e service \<Rightarrow> string list \<Rightarrow> ('e, string \<rightharpoonup> price_data) action" where
  "getTokenPrices S mints w =
     (if mints = [] then (Inr Map.empty, w)
      else
        (let startTime = clock w;
             mintsWithSol = new_Set (mints @ [SOL_MINT]) []
         in case Promise_all2 (fetch S (this_jupiterApiUrl S @ ''?ids='' @ join mintsWithSol '',''))
                   (getTokenMetadata S mintsWithSol) w of
              (Inl err, w1) \<Rightarrow> prices_failed startTime err w1
            | (Inr (pricesResponse, metadata), w1) \<Rightarrow>
                if \<not> rsp_ok pricesResponse then
                  prices_failed startTime
                    (Error (''Jupiter API error: '' @ string_of_nat (rsp_status pricesResponse))) w1
                else
                  (case rsp_json pricesResponse of
                     Inl err \<Rightarrow> prices_failed startTime err w1
                   | Inr JsonNull \<Rightarrow> prices_failed startTime (type_error S) w1
                   | Inr pricesData \<Rightarrow>
                       (case store_prices S metadata
                               (case pricesData of PriceObject (Some entries) \<Rightarrow> entries | _ \<Rightarrow> [])
                               Map.empty w1 of
                          (Inl err, w2) \<Rightarrow> prices_failed startTime err w2
                        | (Inr prices, w2) \<Rightarrow>
                            (Inr prices,
                             insertFetchLog
                               \<lparr>fl_wallet_address = ''system'', fl_timestamp = clock w2,
                                fl_operation = ''prices'', fl_status = ''success'',
                                fl_error_details = None,
                                fl_response_time_ms = clock w2 - startTime\<rparr> w2)))))"

section \<open>Wallet data\<close>

record wallet_data =
  wd_address :: string
  wd_solBalance :: real
  wd_tokens :: "token_account list"
  wd_totalUsdValue :: real
  wd_lastUpdated :: nat

text \<open>
  \<^verbatim>\<open>
  const tokenMetadata = metadata[token.mint];
  const priceData = prices[token.mint];
  return { ...token,
    symbol: tokenMetadata?.symbol || priceData?.symbol || "Unknown",
    name: tokenMetadata?.name || priceData?.name || "Unknown Token",
    usdValue: priceData ? token.amount * priceData.price : 0 };
  \<close>
\<close>

definition enhance ::
  "(string \<rightharpoonup> token_metadata) \<Rightarrow> (string \<rightharpoonup> price_data) \<Rightarrow> token_account \<Rightarrow> token_account" where
  "enhance metadata prices token =
     (let tokenMetadata = metadata (ta_mint token);
          priceData = prices (ta_mint token)
      in token
         \<lparr>ta_symbol :=
            Some (or_else (map_option md_symbol tokenMetadata)
                    (or_else (map_option pd_symbol priceData) ''Unknown'')),
          ta_name :=
            Some (or_else (map_option md_name tokenMetadata)
                    (or_else (map_option pd_name priceData) ''Unknown Token'')),
          ta_usdValue :=
            Some (case priceData of
                    Some pd \<Rightarrow> ta_amount token * pd_price pd
                  | None \<Rightarrow> 0)\<rparr>)"

text \<open>
  \<open>enhancedTokens.reduce((sum, token) => sum + (token.usdValue || 0), 0)\<close>. Numbers are
  reals here: the sum is exact, where the code rounds every addition to a double.
\<close>

definition total_usd :: "token_account list \<Rightarrow> real" where
  "total_usd enhancedTokens =
     foldl (\<lambda>sum token. sum + (case ta_usdValue token of Some v \<Rightarrow> v | None \<Rightarrow> 0)) 0
       enhancedTokens"

text \<open>
  The two \<open>await Promise.all\<close> at the head of the \<open>try\<close> block of \<open>getWalletData\<close>:
  \<^verbatim>\<open>
  const [solBalance, tokenAccounts] = await Promise.all([
    this.getSOLBalance(address), this.getTokenAccounts(address) ]);
  const mints = tokenAccounts.map((token) => token.mint);
  const [metadata, prices] = await Promise.all([
    this.getTokenMetadata(mints), this.getTokenPrices(mints) ]);
  \<close>
  The two calls of a pair are taken one after the other, each to its end. What the code gains
  or loses in time by starting both at once is not part of the model: the delay the queue
  awaits between the balance and the token accounts when both wait together, and the overlap
  of the durations.
\<close>

definition fetch_wallet ::
  "'e service \<Rightarrow> string
     \<Rightarrow> ('e, real \<times> token_account list \<times> (string \<rightharpoonup> token_metadata) \<times> (string \<rightharpoonup> price_data)) action"
  where
  "fetch_wallet S address w =
     (case Promise_all2 (getSOLBalance S address) (getTokenAccounts S address) w of
        (Inl err, w1) \<Rightarrow> (Inl err, w1)
      | (Inr (solBalance, tokenAccounts), w1) \<Rightarrow>
          (let mints = map ta_mint tokenAccounts
           in case Promise_all2 (getTokenMetadata S mints) (getTokenPrices S mints) w1 of
                (Inl err, w2) \<Rightarrow> (Inl err, w2)
              | (Inr (metadata, prices), w2) \<Rightarrow>
                  (Inr (solBalance, tokenAccounts, metadata, prices), w2)))"

text \<open>
  The rest of \<open>getWalletData\<close>: enhance, total, store and return; in the \<open>catch\<close> block
  \<^verbatim>\<open>
  db.upsertWalletBalance({ wallet_address: address, wallet_id: walletId, sol_balance: 0,
    tokens: "[]", last_updated: new Date().toISOString(), fetch_status: "error",
    error_message: error instanceof Error ? error.message : "Unknown error", retry_count: 0 });
  throw error;
  \<close>
\<close>

definition getWalletData :: "'e service \<Rightarrow> string \<Rightarrow> string \<Rightarrow> ('e, wallet_data) action" where
  "getWalletData S address walletId w =
     (case fetch_wallet S address w of
        (Inr (solBalance, tokenAccounts, metadata, prices), w2) \<Rightarrow>
          (let enhancedTokens = map (enhance metadata prices) tokenAccounts;
               totalUsdValue = total_usd enhancedTokens;
               walletData =
                 \<lparr>wd_address = address, wd_solBalance = solBalance, wd_tokens = enhancedTokens,
                  wd_totalUsdValue = totalUsdValue, wd_lastUpdated = clock w2\<rparr>
           in (Inr walletData,
               upsertWalletBalance
                 \<lparr>wb_wallet_address = address, wb_wallet_id = walletId,
                  wb_sol_balance = solBalance, wb_tokens = enhancedTokens,
                  wb_last_updated = wd_lastUpdated walletData, wb_fetch_status = ''success'',
                  wb_error_message = None, wb_retry_count = 0\<rparr> w2))
      | (Inl err, w2) \<Rightarrow>
          (Inl err,
           upsertWalletBalance
             \<lparr>wb_wallet_address = address, wb_wallet_id = walletId, wb_sol_balance = 0,
              wb_tokens = [], wb_last_updated = clock w2, wb_fetch_status = ''error'',
              wb_error_message = Some (error_message err), wb_retry_count = 0\<rparr> w2))"

section \<open>Batches of wallets\<close>

record wallet =
  wl_id :: string
  wl_address :: string

record batch_results =
  successful :: nat
  failed :: nat
  errors :: "string list"

text \<open>
  \<open>xs.slice(start, end)\<close> for integers: a negative index counts from the end, and both are
  clamped to the list.
\<close>

definition slice :: "'a list \<Rightarrow> int \<Rightarrow> int \<Rightarrow> 'a list" where
  "slice xs start stop =
     (let len = int (length xs);
          k = (if start < 0 then max (len + start) 0 else min start len);
          final = (if stop < 0 then max (len + stop) 0 else min stop len)
      in take (nat (final - k)) (drop (nat k) xs))"

text \<open>
  \<^verbatim>\<open>
  const promises = batch.map(async (wallet) => {
    try { await this.getWalletData(wallet.address, wallet.id); results.successful++; }
    catch (error) {
      results.failed++;
      results.errors.push(
        `${wallet.address}: ${error instanceof Error ? error.message : "Unknown error"}`);
    }
  });
  await Promise.allSettled(promises);
  \<close>
  The wallets of one chunk are taken one after the other, in the order of the chunk, so the
  errors of a chunk are noted in that order; the code notes them in the order in which the
  pipelines fail.
\<close>

fun run_batch ::
  "'e service \<Rightarrow> wallet list \<Rightarrow> batch_results \<Rightarrow> 'e world \<Rightarrow> batch_results \<times> 'e world" where
  "run_batch S [] results w = (results, w)"
| "run_batch S (wallet # rest) results w =
     (case getWalletData S (wl_address wallet) (wl_id wallet) w of
        (Inr walletData, w1) \<Rightarrow>
          run_batch S rest (results\<lparr>successful := successful results + 1\<rparr>) w1
      | (Inl err, w1) \<Rightarrow>
          run_batch S rest
            (results\<lparr>failed := failed results + 1,
                     errors := errors results @ [wl_address wallet @ '': '' @ error_message err]\<rparr>)
            w1)"

text \<open>
  \<^verbatim>\<open>
  for (let i = 0; i < wallets.length; i += batchSize) {
    const batch = wallets.slice(i, i + batchSize);
    ...
    if (i + batchSize < wallets.length) {
      await new Promise((resolve) => setTimeout(resolve, 2000));
    }
  }
  return results;
  \<close>
  The loop need not end (\<open>batchSize\<close> is any integer), so the result is an option: \<open>None\<close> when
  the call never returns.
\<close>

partial_function (option) processWalletBatch_loop ::
  "'e service \<Rightarrow> wallet list \<Rightarrow> int \<Rightarrow> int \<Rightarrow> batch_results \<Rightarrow> 'e world
     \<Rightarrow> (batch_results \<times> 'e world) option" where
  "processWalletBatch_loop S wallets batchSize i results w =
     (if i < int (length wallets) then
        (case run_batch S (slice wallets i (i + batchSize)) results w of
           (results1, w1) \<Rightarrow>
             processWalletBatch_loop S wallets batchSize (i + batchSize) results1
               (if i + batchSize < int (length wallets) then setTimeout 2000 w1 else w1))
      else Some (results, w))"

definition processWalletBatch ::
  "'e service \<Rightarrow> wallet list \<Rightarrow> int \<Rightarrow> 'e world \<Rightarrow> (batch_results \<times> 'e world) option" where
  "processWalletBatch S wallets batchSize w =
     processWalletBatch_loop S wallets batchSize 0 \<lparr>successful = 0, failed = 0, errors = []\<rparr> w"

definition batchSize_default :: int where
  "batchSize_default = 5"

section \<open>Conditions the statements speak about\<close>

text \<open>
  The call to the price provider in \<open>getSOLPrice\<close> fails: \<open>fetch\<close> rejects, the response is not
  ok, or no document can be read from it.
\<close>

definition sol_price_call_fails :: "'e service \<Rightarrow> 'e world \<Rightarrow> bool" where
  "sol_price_call_fails S w =
     (case fetch S (this_jupiterApiUrl S @ ''?ids='' @ SOL_MINT) w of
        (Inl err, w1) \<Rightarrow> True
      | (Inr response, w1) \<Rightarrow>
          \<not> rsp_ok response \<or> isl (rsp_json response) \<or> rsp_json response = Inr JsonNull)"

text \<open>The row of the native mint in the price table, if there is one.\<close>

definition cached_sol :: "'e world \<Rightarrow> token_price option" where
  "cached_sol w = find (\<lambda>p. tp_mint p = SOL_MINT) (getAllTokenPrices w)"

text \<open>The three tables of the cache store, and actions that leave them as they are.\<close>

definition store_of :: "'e world \<Rightarrow> fetch_log list \<times> token_price list \<times> wallet_balance list" where
  "store_of w = (fetch_logs w, token_prices w, wallet_balances w)"

definition keeps_store :: "('e world \<Rightarrow> 'r \<times> 'e world) \<Rightarrow> bool" where
  "keeps_store f \<longleftrightarrow> (\<forall>w. store_of (snd (f w)) = store_of w)"


text \<open>
  The catalogue the one fetch of \<open>getTokenMetadata\<close> yields: \<open>None\<close> when the fetch rejects,
  the response is not ok, or the body is not a list of tokens.
\<close>

definition catalogue :: "'e service \<Rightarrow> 'e world \<Rightarrow> token_json list option" where
  "catalogue S w =
     (case fetch S (this_jupiterTokensApiUrl S) w of
        (Inl err, w1) \<Rightarrow> None
      | (Inr response, w1) \<Rightarrow>
          if rsp_ok response then
            (case rsp_json response of Inr (TokenList allTokens) \<Rightarrow> Some allTokens | _ \<Rightarrow> None)
          else None)"

text \<open>
  The lookups the fallback makes from position \<open>i\<close> on, in the order it makes them, each with
  what it gave: the chunks and the delays are those of \<open>fallback_loop\<close>.
\<close>

function lookups ::
  "'e service \<Rightarrow> string list \<Rightarrow> nat \<Rightarrow> 'e world \<Rightarrow> (string \<times> token_metadata option) list" where
  "lookups S mints i w =
     (if i < length mints then
        (case fetch_batch S (take metadata_batchSize (drop i mints)) w of
           (results, w1) \<Rightarrow>
             results @ lookups S mints (i + metadata_batchSize)
                         (if i + metadata_batchSize < length mints then setTimeout 100 w1 else w1))
      else [])"
  by pat_completeness auto
termination
  by (relation "measure (\<lambda>(S, mints, i, w). length mints - i)")
    (auto simp: metadata_batchSize_def)

declare lookups.simps [simp del]

text \<open>The address at which the fallback looks up one mint.\<close>

definition lookup_url :: "'e service \<Rightarrow> string \<Rightarrow> string" where
  "lookup_url S m = this_jupiterTokensApiUrl S @ ''/token/'' @ m"

text \<open>
  What the provider answers to the lookups of a list of mints, \<open>k\<close> lookups having been made
  before: one fetch for every mint, in the order of the list, and 100 ms awaited after every
  tenth lookup that is not the last. An answer is the rejection of the fetch or its response.
\<close>

fun answers ::
  "'e service \<Rightarrow> string list \<Rightarrow> nat \<Rightarrow> 'e world
     \<Rightarrow> (string \<times> (error + response)) list \<times> 'e world" where
  "answers S [] k w = ([], w)"
| "answers S (m # rest) k w =
     (case fetch S (lookup_url S m) w of
        (answer, w1) \<Rightarrow>
          (case answers S rest (Suc k)
                  (if Suc k mod 10 = 0 \<and> rest \<noteq> [] then setTimeout 100 w1 else w1) of
             (as, w2) \<Rightarrow> ((m, answer) # as, w2)))"

text \<open>
  A lookup succeeded: the fetch was not rejected, the response is ok, and its body can be read
  and is not \<open>null\<close>.
\<close>

definition lookup_succeeded :: "error + response \<Rightarrow> bool" where
  "lookup_succeeded answer =
     (case answer of
        Inl err \<Rightarrow> False
      | Inr response \<Rightarrow>
          rsp_ok response
          \<and> (case rsp_json response of Inl err \<Rightarrow> False | Inr body \<Rightarrow> body \<noteq> JsonNull))"

text \<open>
  The entry a lookup that succeeded gives: symbol, name and image of the token the body
  describes, with \<open>Unknown\<close>, \<open>Unknown Token\<close> and no image for what the body does not say.
\<close>

definition lookup_entry :: "error + response \<Rightarrow> token_metadata" where
  "lookup_entry answer =
     (case answer of
        Inl err \<Rightarrow> unknown_metadata
      | Inr response \<Rightarrow>
          (case rsp_json response of
             Inr (TokenObject data) \<Rightarrow> metadata_of data
           | _ \<Rightarrow> unknown_metadata))"

text \<open>An answered lookup as the fallback notes it: the mint, and the entry if it succeeded.\<close>

definition resolved :: "string \<times> (error + response) \<Rightarrow> string \<times> token_metadata option" where
  "resolved a = (fst a, if lookup_succeeded (snd a) then Some (lookup_entry (snd a)) else None)"





text \<open>A metadata entry with a symbol and a name that are not empty.\<close>

definition named :: "token_metadata \<Rightarrow> bool" where
  "named d \<longleftrightarrow> md_symbol d \<noteq> [] \<and> md_name d \<noteq> []"

text \<open>
  The fetch pipeline of \<open>getWalletData\<close> fails with an error: of the native balance, the
  token accounts, the metadata and the prices, fetched in this order, the first that cannot be
  fetched fails with it. Each of the four has used up its own retries and fallbacks by then.
\<close>

definition pipeline_fails :: "'e service \<Rightarrow> string \<Rightarrow> 'e world \<Rightarrow> error \<Rightarrow> bool" where
  "pipeline_fails S address w err =
     (case getSOLBalance S address w of
        (balance, wa) \<Rightarrow>
          (case getTokenAccounts S address wa of
             (accounts, wb) \<Rightarrow>
               (case balance of
                  Inl e \<Rightarrow> e = err
                | Inr solBalance \<Rightarrow>
                    (case accounts of
                       Inl e \<Rightarrow> e = err
                     | Inr tokenAccounts \<Rightarrow>
                         (case getTokenMetadata S (map ta_mint tokenAccounts) wb of
                            (Inl e, wc) \<Rightarrow> e = err
                          | (Inr metadata, wc) \<Rightarrow>
                              fst (getTokenPrices S (map ta_mint tokenAccounts) wc) = Inl err)))))"

text \<open>\<open>token.usdValue || 0\<close>\<close>

definition usd_or_0 :: "token_account \<Rightarrow> real" where
  "usd_or_0 token = (case ta_usdValue token of Some v \<Rightarrow> v | None \<Rightarrow> 0)"


text \<open>A list cut into consecutive chunks of \<open>n\<close> elements, the last one possibly shorter.\<close>

function chunks :: "nat \<Rightarrow> 'a list \<Rightarrow> 'a list list" where
  "chunks n xs = (if n = 0 \<or> xs = [] then [] else take n xs # chunks n (drop n xs))"
  by pat_completeness auto
termination
  by (relation "measure (\<lambda>(n, xs). length xs)") auto

declare chunks.simps [simp del]

text \<open>
  Chunks taken one after the other, each with \<open>run_batch\<close>, the counts carried along, and a
  delay of 2000 ms after every chunk but the last.
\<close>

fun run_chunks ::
  "'e service \<Rightarrow> wallet list list \<Rightarrow> batch_results \<Rightarrow> 'e world \<Rightarrow> batch_results \<times> 'e world" where
  "run_chunks S [] results w = (results, w)"
| "run_chunks S (c # rest) results w =
     (case run_batch S c results w of
        (results1, w1) \<Rightarrow> run_chunks S rest results1 (if rest = [] then w1 else setTimeout 2000 w1))"

text \<open>An entry of the error list that names a wallet of the list.\<close>

definition error_entry_of :: "wallet list \<Rightarrow> string \<Rightarrow> bool" where
  "error_entry_of wallets e \<longleftrightarrow>
     (\<exists>wl\<in>set wallets. \<exists>err. e = wl_address wl @ '': '' @ error_message err)"

text \<open>An invocation of \<open>processQueue\<close> that waits for an operation: an operation in flight.\<close>

fun is_operation :: "('e, 'a) suspended \<Rightarrow> bool" where
  "is_operation (AwaitOperation ticket operation) = True"
| "is_operation AwaitDelay = False"

text \<open>
  What holds of every queue that can be reached: the tickets started and the tickets waiting
  are, in this order, the tickets handed out; a wrapper holds the operation that was submitted
  under its ticket; and at most one invocation of \<open>processQueue\<close> is running, which is so
  exactly when the flag is set.
\<close>

fun running_ok :: "('e, 'a) queue \<Rightarrow> ('e, 'a) suspended list \<Rightarrow> bool" where
  "running_ok q [] \<longleftrightarrow>
     \<not> isProcessingQueue q \<and> requestQueue q = [] \<and> map fst (settled q) = started q"
| "running_ok q [AwaitOperation ticket operation] \<longleftrightarrow>
     isProcessingQueue q \<and> started q \<noteq> [] \<and> last (started q) = ticket
     \<and> operation = submitted q ! ticket \<and> map fst (settled q) = butlast (started q)"
| "running_ok q [AwaitDelay] \<longleftrightarrow>
     isProcessingQueue q \<and> requestQueue q \<noteq> [] \<and> map fst (settled q) = started q"
| "running_ok q (s # s' # rest) \<longleftrightarrow> False"

definition queue_inv :: "('e, 'a) queue \<Rightarrow> bool" where
  "queue_inv q \<longleftrightarrow>
     started q @ map fst (requestQueue q) = [0..<length (submitted q)]
     \<and> (\<forall>x\<in>set (requestQueue q). snd x = submitted q ! fst x)
     \<and> running_ok q (running q)"

text \<open>The number of settlements until the queue is drained, and of delays among them.\<close>

fun steps_left :: "('e, 'a) queue \<Rightarrow> nat" where
  "steps_left q =
     (case running q of
        [] \<Rightarrow> 0
      | AwaitOperation ticket operation # rest \<Rightarrow> 2 * length (requestQueue q) + 1
      | AwaitDelay # rest \<Rightarrow> 2 * length (requestQueue q))"

text \<open>An operation that awaits no timer of its own.\<close>

definition timer_free :: "('e, 'a) action \<Rightarrow> bool" where
  "timer_free operation \<longleftrightarrow> (\<forall>w. timers (snd (operation w)) = timers w)"

section \<open>Fixtures\<close>

definition world0 :: "nat world" where
  "world0 = \<lparr>ext = 0, clock = 0, timers = [], fetched = [], fetch_logs = [], token_prices = [],
     wallet_balances = []\<rparr>"

definition flaky :: "(nat, nat) action" where
  "flaky w = (if ext w < 2 then Inl (Error ''rpc unavailable'') else Inr 7, w\<lparr>ext := Suc (ext w)\<rparr>)"

definition broken :: "(nat, nat) action" where
  "broken w = (Inl (NonError (replicate (ext w) CHR ''x'')), w\<lparr>ext := Suc (ext w)\<rparr>)"

text \<open>A provider that cannot be reached: every call is rejected after 5 ms.\<close>

definition unreachable :: "(nat, 'a) io" where
  "unreachable e = ((Inl (Error ''fetch failed''), 5), Suc e)"

definition service_down :: "nat service" where
  "service_down =
     \<lparr>new_PublicKey = Inr,
      connection_getBalance = (\<lambda>publicKey. unreachable),
      fallbackConnection_getBalance = (\<lambda>publicKey. unreachable),
      connection_getParsedTokenAccountsByOwner = (\<lambda>publicKey programId. unreachable),
      fallbackConnection_getParsedTokenAccountsByOwner = (\<lambda>publicKey programId. unreachable),
      global_fetch = (\<lambda>url. unreachable),
      this_jupiterApiUrl = ''https://lite-api.jup.ag/price/v2'',
      this_jupiterTokensApiUrl = ''https://lite-api.jup.ag/tokens/v1'',
      this_rateLimitDelay = 100,
      this_maxRetries = 3,
      type_error = Error ''null is not an object''\<rparr>"

definition sol_row :: "real \<Rightarrow> token_price" where
  "sol_row p =
     \<lparr>tp_mint = SOL_MINT, tp_symbol = ''SOL'', tp_name = ''Solana'', tp_price = p,
      tp_image_url = None, tp_last_updated = 0, tp_source = ''jupiter''\<rparr>"

text \<open>A world whose price table holds one row, for the native mint, at the given price.\<close>

definition world_cached :: "real \<Rightarrow> nat world" where
  "world_cached p = world0\<lparr>token_prices := [sol_row p]\<rparr>"

text \<open>
  A provider that answers: every call takes 20 ms. The catalogue lists one token, \<open>M1\<close>; the
  price provider quotes \<open>M1\<close> at 0.5 and the native mint at 150; every wallet holds 2.5 of the
  native currency and 100 of \<open>M1\<close>. An address \<open>bad\<close> is malformed.
\<close>

definition respond :: "'a \<Rightarrow> (nat, 'a) io" where
  "respond r e = ((Inr r, 20), Suc e)"

definition ok_json :: "json_body \<Rightarrow> response" where
  "ok_json body = \<lparr>rsp_ok = True, rsp_status = 200, rsp_json = Inr body\<rparr>"

definition not_found :: response where
  "not_found = \<lparr>rsp_ok = False, rsp_status = 404, rsp_json = Inr JsonNull\<rparr>"

definition m1_json :: token_json where
  "m1_json =
     \<lparr>tj_address = Some ''M1'', tj_symbol = Some ''ONE'', tj_name = Some ''Token One'',
      tj_logoURI = None\<rparr>"

definition quotes :: json_body where
  "quotes =
     PriceObject (Some [(''M1'', Some \<lparr>pj_price = Some (1 / 2)\<rparr>),
                        (SOL_MINT, Some \<lparr>pj_price = Some 150\<rparr>)])"

definition service_up :: "nat service" where
  "service_up =
     \<lparr>new_PublicKey = (\<lambda>address. if address = ''bad'' then Inl (Error ''Invalid public key input'')
                                  else Inr address),
      connection_getBalance = (\<lambda>publicKey. respond 2500000000),
      fallbackConnection_getBalance = (\<lambda>publicKey. unreachable),
      connection_getParsedTokenAccountsByOwner =
        (\<lambda>publicKey programId.
           respond (case programId of
                      TOKEN_PROGRAM_ID \<Rightarrow>
                        [Some \<lparr>pi_mint = ''M1'', pi_uiAmount = Some 100, pi_decimals = 6\<rparr>]
                    | TOKEN_2022_PROGRAM_ID \<Rightarrow> [])),
      fallbackConnection_getParsedTokenAccountsByOwner = (\<lambda>publicKey programId. unreachable),
      global_fetch = (\<lambda>url. if url = ''tokens'' then respond (ok_json (TokenList [m1_json]))
                              else respond (ok_json quotes)),
      this_jupiterApiUrl = ''price'',
      this_jupiterTokensApiUrl = ''tokens'',
      this_rateLimitDelay = 100,
      this_maxRetries = 3,
      type_error = Error ''null is not an object''\<rparr>"


text \<open>
  The same outage seen at twelve mints: the one fetch of all tokens is answered with 404. Of
  the lookups one by one, \<open>M1\<close> is answered with its token, \<open>M3\<close> is rejected, \<open>M4\<close> is
  answered with the body \<open>null\<close>, \<open>M12\<close> is answered with a token that has neither symbol nor
  name, and every other one is answered with 404.
\<close>

definition blank_json :: token_json where
  "blank_json = \<lparr>tj_address = Some ''M12'', tj_symbol = None, tj_name = Some [], tj_logoURI = None\<rparr>"

definition service_fallback :: "nat service" where
  "service_fallback =
     service_up
       \<lparr>global_fetch :=
          (\<lambda>url. if url = ''tokens/token/M1'' then respond (ok_json (TokenObject m1_json))
                 else if url = ''tokens/token/M3'' then unreachable
                 else if url = ''tokens/token/M4'' then respond (ok_json JsonNull)
                 else if url = ''tokens/token/M12'' then respond (ok_json (TokenObject blank_json))
                 else respond not_found)\<rparr>"

definition twelve_mints :: "string list" where
  "twelve_mints =
     [''M1'', ''M2'', ''M3'', ''M4'', ''M5'', ''M6'', ''M7'', ''M8'', ''M9'', ''M10'', ''M11'', ''M12'']"

text \<open>The token account every wallet of \<open>service_up\<close> holds, as \<open>getTokenAccounts\<close> returns it.\<close>

definition m1_account :: token_account where
  "m1_account =
     \<lparr>ta_mint = ''M1'', ta_amount = 100, ta_decimals = 6, ta_symbol = None, ta_name = None,
      ta_usdValue = None\<rparr>"

text \<open>Twelve wallets; the address of the last one is malformed.\<close>

definition good_wallet :: wallet where
  "good_wallet = \<lparr>wl_id = ''g'', wl_address = ''A''\<rparr>"

definition bad_wallet :: wallet where
  "bad_wallet = \<lparr>wl_id = ''b'', wl_address = ''bad''\<rparr>"

definition twelve :: "wallet list" where
  "twelve =
     [good_wallet, good_wallet, good_wallet, good_wallet, good_wallet,
      good_wallet, good_wallet, good_wallet, good_wallet, good_wallet,
      good_wallet, bad_wallet]"

text \<open>What \<open>service_up\<close> makes of a wallet: it fails on the malformed address alone.\<close>

definition tally :: "batch_results \<Rightarrow> wallet \<Rightarrow> batch_results" where
  "tally results wl =
     (if wl_address wl = ''bad''
      then results\<lparr>failed := failed results + 1,
                   errors := errors results @ [''bad: Invalid public key input'']\<rparr>
      else results\<lparr>successful := successful results + 1\<rparr>)"

text \<open>Two operations for the queue: one resolves with a number, one rejects.\<close>

definition resolves :: "nat \<Rightarrow> (nat, nat) action" where
  "resolves v w = (Inr v, w\<lparr>ext := Suc (ext w)\<rparr>)"

definition rejects :: "(nat, nat) action" where
  "rejects w = (Inl (Error ''rejected''), w\<lparr>ext := Suc (ext w)\<rparr>)"

text \<open>
  A provider that answers its first two calls, with a quote for the native mint that has no
  price, and cannot be reached after that.
\<close>

definition service_outage :: "nat service" where
  "service_outage =
     service_down
       \<lparr>global_fetch :=
          (\<lambda>url e. if e < 2
                    then respond (ok_json (PriceObject (Some [(SOL_MINT, Some \<lparr>pj_price = None\<rparr>)]))) e
                    else unreachable e)\<rparr>"

section \<open>The retry wrapper\<close>

lemma timers_attempt_world:
  assumes "\<And>w. timers (snd (operation w)) = timers w"
  shows "timers (attempt_world operation baseDelay i w) = timers w @ map (\<lambda>j. baseDelay * 2 ^ j) [0..<i]"
  by (induction i) (simp_all add: setTimeout_def assms)

lemma withRetry_loop_success:
  assumes "fst (operation (attempt_world operation baseDelay k w)) = Inr v"
    and "k < maxRetries"
    and "\<forall>i<k. isl (fst (operation (attempt_world operation baseDelay i w)))"
    and "a \<le> k"
  shows "withRetry_loop a operation maxRetries baseDelay (attempt_world operation baseDelay a w)
         = (Inr v, snd (operation (attempt_world operation baseDelay k w)))"
  using assms(4)
proof (induction "k - a" arbitrary: a)
  case 0
  then have "a = k" by simp
  with assms(1,2) show ?case
    by (subst withRetry_loop.simps, cases "operation (attempt_world operation baseDelay k w)")
      (simp split: sum.splits)
next
  case (Suc n)
  then have lt: "a < k" and le: "Suc a \<le> k" and n: "n = k - Suc a" by simp_all
  from lt assms(3) have "isl (fst (operation (attempt_world operation baseDelay a w)))" by simp
  then obtain err w1 where op: "operation (attempt_world operation baseDelay a w) = (Inl err, w1)"
    by (cases "operation (attempt_world operation baseDelay a w)") (auto simp: isl_def)
  from lt assms(2) have "a < maxRetries" "a \<noteq> maxRetries - 1" by simp_all
  with op Suc.hyps(1)[OF n le] show ?case by (subst withRetry_loop.simps) simp
qed

lemma withRetry_loop_exhausted:
  assumes "\<forall>i<maxRetries. isl (fst (operation (attempt_world operation baseDelay i w)))"
    and "a < maxRetries"
  shows "withRetry_loop a operation maxRetries baseDelay (attempt_world operation baseDelay a w)
         = operation (attempt_world operation baseDelay (maxRetries - 1) w)"
  using assms(2)
proof (induction "maxRetries - 1 - a" arbitrary: a)
  case 0
  then have a: "a = maxRetries - 1" by simp
  from assms(1) 0(2) have "isl (fst (operation (attempt_world operation baseDelay a w)))" by simp
  then obtain err w1 where op: "operation (attempt_world operation baseDelay a w) = (Inl err, w1)"
    by (cases "operation (attempt_world operation baseDelay a w)") (auto simp: isl_def)
  with a 0(2) show ?case by (subst withRetry_loop.simps) simp
next
  case (Suc n)
  then have lt: "Suc a < maxRetries" and n: "n = maxRetries - 1 - Suc a" by simp_all
  from assms(1) Suc(3) have "isl (fst (operation (attempt_world operation baseDelay a w)))" by simp
  then obtain err w1 where op: "operation (attempt_world operation baseDelay a w) = (Inl err, w1)"
    by (cases "operation (attempt_world operation baseDelay a w)") (auto simp: isl_def)
  from lt have "a < maxRetries" "a \<noteq> maxRetries - 1" by simp_all
  with op Suc.hyps(1)[OF n lt] show ?case by (subst withRetry_loop.simps) simp
qed

text \<open>
  Claim C1. For an operation that sets no timers of its own: if it fails on the attempts
  numbered \<open>0\<close> to \<open>k - 1\<close> and succeeds on attempt \<open>k < maxRetries\<close>, \<open>withRetry\<close>
  returns the success value and has awaited exactly the \<open>k\<close> delays
  \<open>baseDelay * 2 ^ i\<close>, \<open>i < k\<close>; if it fails on all \<open>maxRetries\<close> attempts, \<open>withRetry\<close>
  raises the error of the last attempt unchanged, after \<open>maxRetries - 1\<close> delays.
\<close>

theorem withRetry_backoff:
  assumes "\<forall>w. timers (snd (operation w)) = timers w"
  shows "(k < maxRetries
            \<and> (\<forall>i<k. isl (fst (operation (attempt_world operation baseDelay i w))))
            \<and> fst (operation (attempt_world operation baseDelay k w)) = Inr v
          \<longrightarrow> fst (withRetry operation maxRetries baseDelay w) = Inr v
            \<and> timers (snd (withRetry operation maxRetries baseDelay w))
                = timers w @ map (\<lambda>i. baseDelay * 2 ^ i) [0..<k])
       \<and> (0 < maxRetries
            \<and> (\<forall>i<maxRetries. isl (fst (operation (attempt_world operation baseDelay i w))))
          \<longrightarrow> fst (withRetry operation maxRetries baseDelay w)
                = fst (operation (attempt_world operation baseDelay (maxRetries - 1) w))
            \<and> timers (snd (withRetry operation maxRetries baseDelay w))
                = timers w @ map (\<lambda>i. baseDelay * 2 ^ i) [0..<maxRetries - 1])"
proof (intro conjI impI)
  assume h: "k < maxRetries
      \<and> (\<forall>i<k. isl (fst (operation (attempt_world operation baseDelay i w))))
      \<and> fst (operation (attempt_world operation baseDelay k w)) = Inr v"
  then have run: "withRetry operation maxRetries baseDelay w
      = (Inr v, snd (operation (attempt_world operation baseDelay k w)))"
    using withRetry_loop_success [of operation baseDelay k w v maxRetries 0]
    by (simp add: withRetry_def)
  show "fst (withRetry operation maxRetries baseDelay w) = Inr v"
    by (simp add: run)
  show "timers (snd (withRetry operation maxRetries baseDelay w))
      = timers w @ map (\<lambda>i. baseDelay * 2 ^ i) [0..<k]"
    using assms by (simp add: run timers_attempt_world)
next
  assume h: "0 < maxRetries
      \<and> (\<forall>i<maxRetries. isl (fst (operation (attempt_world operation baseDelay i w))))"
  then have run: "withRetry operation maxRetries baseDelay w
      = operation (attempt_world operation baseDelay (maxRetries - 1) w)"
    using withRetry_loop_exhausted [of maxRetries operation baseDelay w 0]
    by (simp add: withRetry_def)
  show "fst (withRetry operation maxRetries baseDelay w)
      = fst (operation (attempt_world operation baseDelay (maxRetries - 1) w))"
    by (simp add: run)
  show "timers (snd (withRetry operation maxRetries baseDelay w))
      = timers w @ map (\<lambda>i. baseDelay * 2 ^ i) [0..<maxRetries - 1]"
    using assms by (simp add: run timers_attempt_world)
qed

lemma all_less_3: "(\<forall>i<3::nat. P i) \<longleftrightarrow> P 0 \<and> P 1 \<and> P 2"
  by (auto simp: numeral_3_eq_3 numeral_2_eq_2 less_Suc_eq)

lemma all_less_2: "(\<forall>i<2::nat. P i) \<longleftrightarrow> P 0 \<and> P 1"
  by (auto simp: numeral_2_eq_2 less_Suc_eq)

lemma attempt_world_1:
  "attempt_world operation baseDelay 1 w = setTimeout baseDelay (snd (operation w))"
  using attempt_world.simps(2) [of operation baseDelay 0 w] by simp

lemma attempt_world_2:
  "attempt_world operation baseDelay 2 w
     = setTimeout (baseDelay * 2) (snd (operation (setTimeout baseDelay (snd (operation w)))))"
  using attempt_world.simps(2) [of operation baseDelay 1 w] attempt_world_1 [of operation baseDelay w]
  by (simp add: numeral_2_eq_2)

theorem withRetry_backoff_witness:
  "fst (withRetry flaky maxRetries_default baseDelay_default world0) = Inr 7
   \<and> timers (snd (withRetry flaky maxRetries_default baseDelay_default world0)) = [1000, 2000]
   \<and> fst (withRetry broken maxRetries_default baseDelay_default world0) = Inl (NonError ''xx'')
   \<and> timers (snd (withRetry broken maxRetries_default baseDelay_default world0)) = [1000, 2000]"
proof -
  have f: "\<forall>w. timers (snd (flaky w)) = timers w"
    by (simp add: flaky_def)
  have b: "\<forall>w. timers (snd (broken w)) = timers w"
    by (simp add: broken_def)
  have hf: "2 < maxRetries_default
      \<and> (\<forall>i<2. isl (fst (flaky (attempt_world flaky baseDelay_default i world0))))
      \<and> fst (flaky (attempt_world flaky baseDelay_default 2 world0)) = Inr 7"
    by (simp add: maxRetries_default_def all_less_2 attempt_world_1 attempt_world_2 flaky_def
        setTimeout_def world0_def)
  have hb: "0 < maxRetries_default
      \<and> (\<forall>i<maxRetries_default.
            isl (fst (broken (attempt_world broken baseDelay_default i world0))))"
    by (simp add: maxRetries_default_def all_less_3 broken_def)
  have last: "fst (broken (attempt_world broken baseDelay_default (maxRetries_default - 1) world0))
      = Inl (NonError ''xx'')"
    by (simp add: maxRetries_default_def attempt_world_2 broken_def setTimeout_def world0_def
        numeral_2_eq_2)
  have t0: "timers world0 = []"
    by (simp add: world0_def)
  have d2: "map (\<lambda>i. baseDelay_default * 2 ^ i) [0..<2] = [1000, 2000]"
    by (simp add: baseDelay_default_def upt_rec)
  have d3: "map (\<lambda>i. baseDelay_default * 2 ^ i) [0..<maxRetries_default - 1] = [1000, 2000]"
    by (simp add: baseDelay_default_def maxRetries_default_def upt_rec)
  from withRetry_backoff [OF f, THEN conjunct1, THEN mp, OF hf]
  have c1: "fst (withRetry flaky maxRetries_default baseDelay_default world0) = Inr 7
      \<and> timers (snd (withRetry flaky maxRetries_default baseDelay_default world0)) = [1000, 2000]"
    by (simp only: t0 d2 append_Nil)
  from withRetry_backoff [OF b, THEN conjunct2, THEN mp, OF hb]
  have c2: "fst (withRetry broken maxRetries_default baseDelay_default world0)
        = Inl (NonError ''xx'')
      \<and> timers (snd (withRetry broken maxRetries_default baseDelay_default world0)) = [1000, 2000]"
    by (simp only: t0 d3 last append_Nil)
  show ?thesis
    by (intro conjI c1 [THEN conjunct1] c1 [THEN conjunct2] c2 [THEN conjunct1]
        c2 [THEN conjunct2])
qed

section \<open>The price of the native currency\<close>

lemma fetch_keeps_store:
  assumes "fetch S url w = (r, w1)"
  shows "token_prices w1 = token_prices w" and "fetch_logs w1 = fetch_logs w"
    and "wallet_balances w1 = wallet_balances w"
  using assms by (auto simp: fetch_def await_def split: prod.splits)

text \<open>
  Claim C10. \<open>getSOLPrice\<close> never raises: for every provider and every store it returns a
  number. When the call to the price provider fails and the store has no row for the native
  mint, or a row with price 0, the number is the constant 150.
\<close>

theorem getSOLPrice_never_raises:
  "(\<exists>p w'. getSOLPrice S w = (Inr p, w'))
   \<and> (sol_price_call_fails S w
        \<and> (cached_sol w = None \<or> (\<exists>c. cached_sol w = Some c \<and> tp_price c = 0))
      \<longrightarrow> fst (getSOLPrice S w) = Inr 150)"
proof (intro conjI impI)
  show "\<exists>p w'. getSOLPrice S w = (Inr p, w')"
    by (simp add: getSOLPrice_def Let_def split: prod.splits sum.splits json_body.splits)
next
  assume h: "sol_price_call_fails S w
      \<and> (cached_sol w = None \<or> (\<exists>c. cached_sol w = Some c \<and> tp_price c = 0))"
  obtain r w1 where f: "fetch S (this_jupiterApiUrl S @ ''?ids='' @ SOL_MINT) w = (r, w1)"
    by (cases "fetch S (this_jupiterApiUrl S @ ''?ids='' @ SOL_MINT) w")
  have "token_prices w1 = token_prices w"
    by (rule fetch_keeps_store(1) [OF f])
  with h have c: "cached_or_150 w1 = 150"
    by (auto simp: cached_or_150_def cached_sol_def getAllTokenPrices_def)
  from h f c show "fst (getSOLPrice S w) = Inr 150"
    by (auto simp: getSOLPrice_def sol_price_call_fails_def isl_def
        split: sum.splits json_body.splits)
qed

lemma down_fails: "sol_price_call_fails service_down w"
  by (simp add: sol_price_call_fails_def fetch_def await_def service_down_def unreachable_def)

theorem getSOLPrice_never_raises_witness:
  "sol_price_call_fails service_down world0 \<and> cached_sol world0 = None
   \<and> fst (getSOLPrice service_down world0) = Inr 150
   \<and> sol_price_call_fails service_down (world_cached 0) \<and> cached_sol (world_cached 0) = Some (sol_row 0)
   \<and> fst (getSOLPrice service_down (world_cached 0)) = Inr 150"
proof -
  have a: "cached_sol world0 = None"
    by (simp add: cached_sol_def getAllTokenPrices_def world0_def)
  have b: "cached_sol (world_cached 0) = Some (sol_row 0)"
    by (simp add: cached_sol_def getAllTokenPrices_def world_cached_def sol_row_def)
  have z: "tp_price (sol_row 0) = 0"
    by (simp add: sol_row_def)
  from getSOLPrice_never_raises [of service_down world0, THEN conjunct2] down_fails a
  have r1: "fst (getSOLPrice service_down world0) = Inr 150"
    by simp
  from getSOLPrice_never_raises [of service_down "world_cached 0", THEN conjunct2] down_fails b z
  have r2: "fst (getSOLPrice service_down (world_cached 0)) = Inr 150"
    by simp
  show ?thesis
    by (intro conjI down_fails a b r1 r2)
qed

text \<open>
  Claim C7, as stated, fails for a cached price of 0: the provider call fails, the store has a
  row for the native mint, and the result is 150, not the cached price.
\<close>

theorem getSOLPrice_cached_zero_counterexample:
  "sol_price_call_fails service_down (world_cached 0)
   \<and> cached_sol (world_cached 0) = Some (sol_row 0)
   \<and> fst (getSOLPrice service_down (world_cached 0)) \<noteq> Inr (tp_price (sol_row 0))"
proof -
  have b: "cached_sol (world_cached 0) = Some (sol_row 0)"
    by (simp add: cached_sol_def getAllTokenPrices_def world_cached_def sol_row_def)
  have "fst (getSOLPrice service_down (world_cached 0)) = Inr 150"
    by (simp add: getAllTokenPrices_def world_cached_def sol_row_def getSOLPrice_def fetch_def
        await_def service_down_def unreachable_def cached_or_150_def)
  then have c: "fst (getSOLPrice service_down (world_cached 0)) \<noteq> Inr (tp_price (sol_row 0))"
    by (simp add: sol_row_def)
  show ?thesis
    by (intro conjI down_fails b c)
qed

text \<open>
  A row with price 0 for the native mint is written by the service itself: \<open>getTokenPrices\<close>
  stores every quote, also one without a price, and \<open>getSOLPrice\<close> then answers an outage
  with 150.
\<close>

lemma outage_store:
  "token_prices (snd (getTokenPrices service_outage [''M1''] world0))
     = [\<lparr>tp_mint = SOL_MINT, tp_symbol = ''SOL'', tp_name = ''Solana'', tp_price = 0,
         tp_image_url = None, tp_last_updated = 50, tp_source = ''jupiter''\<rparr>]
   \<and> ext (snd (getTokenPrices service_outage [''M1''] world0)) = 4"
  by (simp add: getTokenPrices_def Promise_all2_def getTokenMetadata_def Let_def fetch_def
      await_def service_outage_def service_down_def respond_def unreachable_def ok_json_def
      world0_def fallback_loop.simps [of _ _ 0] fallback_loop.simps [of _ _ 10]
      metadata_batchSize_def fetch_one_def SOL_MINT_def
      upsertTokenPrice_def insertFetchLog_def)

lemma cached_zero_reachable:
  "map_option tp_price (cached_sol (snd (getTokenPrices service_outage [''M1''] world0))) = Some 0
   \<and> sol_price_call_fails service_outage (snd (getTokenPrices service_outage [''M1''] world0))
   \<and> fst (getSOLPrice service_outage (snd (getTokenPrices service_outage [''M1''] world0)))
       = Inr 150"
proof -
  define w1 where "w1 = snd (getTokenPrices service_outage [''M1''] world0)"
  from outage_store have st: "token_prices w1
      = [\<lparr>tp_mint = SOL_MINT, tp_symbol = ''SOL'', tp_name = ''Solana'', tp_price = 0,
          tp_image_url = None, tp_last_updated = 50, tp_source = ''jupiter''\<rparr>]"
    and e: "ext w1 = 4"
    by (simp_all add: w1_def)
  from st have a: "map_option tp_price (cached_sol w1) = Some 0"
    by (simp add: cached_sol_def getAllTokenPrices_def)
  from e have b: "sol_price_call_fails service_outage w1"
    by (simp add: sol_price_call_fails_def fetch_def await_def service_outage_def
        service_down_def unreachable_def)
  from e st have c: "fst (getSOLPrice service_outage w1) = Inr 150"
    by (simp add: getSOLPrice_def fetch_def await_def service_outage_def service_down_def
        unreachable_def cached_or_150_def getAllTokenPrices_def)
  from a b c show ?thesis
    unfolding w1_def by (intro conjI)
qed

text \<open>
  Claim C7, amended. When the call to the price provider fails and the store has a row for the
  native mint whose price is not 0, \<open>getSOLPrice\<close> does not raise and returns that price.
\<close>

theorem getSOLPrice_cached:
  assumes "sol_price_call_fails S w" and "cached_sol w = Some c" and "tp_price c \<noteq> 0"
  shows "\<exists>w'. getSOLPrice S w = (Inr (tp_price c), w')"
proof -
  obtain r w1 where f: "fetch S (this_jupiterApiUrl S @ ''?ids='' @ SOL_MINT) w = (r, w1)"
    by (cases "fetch S (this_jupiterApiUrl S @ ''?ids='' @ SOL_MINT) w")
  have "token_prices w1 = token_prices w"
    by (rule fetch_keeps_store(1) [OF f])
  with assms(2,3) have c: "cached_or_150 w1 = tp_price c"
    by (auto simp: cached_or_150_def cached_sol_def getAllTokenPrices_def)
  from assms(1) f c show ?thesis
    by (auto simp: getSOLPrice_def sol_price_call_fails_def isl_def
        split: sum.splits json_body.splits)
qed

theorem getSOLPrice_cached_witness:
  "sol_price_call_fails service_down (world_cached 150)
   \<and> cached_sol (world_cached 150) = Some (sol_row 150)
   \<and> tp_price (sol_row 150) \<noteq> 0
   \<and> fst (getSOLPrice service_down (world_cached 150)) = Inr 150"
proof -
  have b: "cached_sol (world_cached 150) = Some (sol_row 150)"
    by (simp add: cached_sol_def getAllTokenPrices_def world_cached_def sol_row_def)
  have z: "tp_price (sol_row 150) \<noteq> 0" "tp_price (sol_row 150) = 150"
    by (simp_all add: sol_row_def)
  from getSOLPrice_cached [OF down_fails b z(1)] z(2)
  have "fst (getSOLPrice service_down (world_cached 150)) = Inr 150"
    by auto
  with b z(1) show ?thesis
    by (intro conjI down_fails)
qed

section \<open>What the calls do to the store\<close>

lemma addToQueue_idle: "addToQueue rateLimitDelay operation w = operation w"
  by (cases "operation w")
    (simp add: addToQueue_def run_def submit_def processQueue_def loop_head_def settle_def
      resume_def idle_queue_def Let_def)

lemma keeps_storeI: "(\<And>w. store_of (snd (f w)) = store_of w) \<Longrightarrow> keeps_store f"
  by (simp add: keeps_store_def)

lemma keeps_storeD: "keeps_store f \<Longrightarrow> f w = (r, w') \<Longrightarrow> store_of w' = store_of w"
  by (auto simp: keeps_store_def dest: spec [of _ w])

lemma store_of_setTimeout [simp]: "store_of (setTimeout d w) = store_of w"
  by (simp add: store_of_def setTimeout_def)


lemma keeps_store_fetch: "keeps_store (fetch S url)"
  by (simp add: keeps_store_def store_of_def fetch_def await_def split: prod.splits)











section \<open>Token metadata\<close>

lemma keeps_store_fetch_one: "keeps_store (fetch_one S m)"
proof (rule keeps_storeI)
  fix w
  let ?f = "fetch S (this_jupiterTokensApiUrl S @ ''/token/'' @ m)"
  obtain r w1 where f: "?f w = (r, w1)" by (cases "?f w")
  from keeps_storeD [OF keeps_store_fetch f] f
  show "store_of (snd (fetch_one S m w)) = store_of w"
    by (simp add: fetch_one_def split: sum.splits json_body.splits)
qed

lemma keeps_store_fetch_batch: "store_of (snd (fetch_batch S batch w)) = store_of w"
proof (induction batch arbitrary: w)
  case Nil
  show ?case by simp
next
  case (Cons m rest)
  obtain d w1 where f: "fetch_one S m w = (d, w1)" by (cases "fetch_one S m w")
  from keeps_storeD [OF keeps_store_fetch_one f] Cons [of w1] f
  show ?case by (auto split: prod.splits)
qed

lemma fallback_loop_lookups:
  "fallback_loop S mints i metadata w = (md, w') \<Longrightarrow>
     md = assign_results (lookups S mints i w) metadata \<and> store_of w' = store_of w"
proof (induction S mints i metadata w rule: fallback_loop.induct)
  case (1 S mints i metadata w)
  show ?case
  proof (cases "i < length mints")
    case False
    with "1.prems" show ?thesis
      by (simp add: fallback_loop.simps [of S mints i] lookups.simps [of S mints i])
  next
    case True
    obtain results w1 where b: "fetch_batch S (take metadata_batchSize (drop i mints)) w = (results, w1)"
      by (cases "fetch_batch S (take metadata_batchSize (drop i mints)) w")
    let ?w2 = "if i + metadata_batchSize < length mints then setTimeout 100 w1 else w1"
    from "1.prems" True b
    have "fallback_loop S mints (i + metadata_batchSize) (assign_results results metadata) ?w2
        = (md, w')"
      by (simp add: fallback_loop.simps [of S mints i])
    from "1.IH" [OF True b [symmetric] this]
    have md: "md = assign_results (lookups S mints (i + metadata_batchSize) ?w2)
          (assign_results results metadata)"
      and st: "store_of w' = store_of ?w2"
      by simp_all
    have app: "assign_results (xs @ ys) m0 = assign_results ys (assign_results xs m0)"
      for xs ys and m0 :: "string \<rightharpoonup> token_metadata"
      by (induction xs m0 rule: assign_results.induct) simp_all
    from keeps_store_fetch_batch [of S "take metadata_batchSize (drop i mints)" w] b
    have "store_of w1 = store_of w" by simp
    with st have "store_of w' = store_of w" by simp
    moreover from md True b have "md = assign_results (lookups S mints i w) metadata"
      by (simp add: lookups.simps [of S mints i] app)
    ultimately show ?thesis by simp
  qed
qed



lemma extract_metadata_eq:
  "extract_metadata ms tokenMap metadata m =
     (if m \<in> set ms
      then Some (case tokenMap (Some m) of Some d \<Rightarrow> d | None \<Rightarrow> unknown_metadata)
      else metadata m)"
proof (induction ms tokenMap metadata rule: extract_metadata.induct)
  case (1 tokenMap metadata)
  show ?case by simp
next
  case (2 m' rest tokenMap metadata)
  show ?case
    unfolding extract_metadata.simps "2.IH" by auto
qed

lemma build_tokenMap_eq:
  "build_tokenMap ts tokenMap k =
     (case filter (\<lambda>t. tj_address t = k) ts of
        [] \<Rightarrow> tokenMap k
      | x # xs \<Rightarrow> Some (metadata_of (last (x # xs))))"
proof (induction ts tokenMap rule: build_tokenMap.induct)
  case (1 tokenMap)
  show ?case by simp
next
  case (2 token rest tokenMap)
  show ?case
    unfolding build_tokenMap.simps "2.IH" by (auto split: list.splits)
qed

lemma assign_results_eq:
  "assign_results rs metadata m =
     (case filter (\<lambda>r. fst r = m \<and> snd r \<noteq> None) rs of
        [] \<Rightarrow> metadata m
      | x # xs \<Rightarrow> snd (last (x # xs)))"
proof (induction rs metadata rule: assign_results.induct)
  case (1 metadata)
  show ?case by simp
next
  case (2 m' data rest metadata)
  show ?case
    unfolding assign_results.simps "2.IH" by (cases data) (auto split: list.splits)
qed

lemma fetch_trace:
  assumes "fetch S url w = (r, w1)"
  shows "fetched w1 = fetched w @ [url]" and "timers w1 = timers w"
  using assms by (auto simp: fetch_def await_def split: prod.splits)

lemma fetch_one_trace:
  assumes "fetch_one S m w = (d, w1)"
  shows "fetched w1 = fetched w @ [this_jupiterTokensApiUrl S @ ''/token/'' @ m]"
    and "timers w1 = timers w"
proof -
  let ?f = "fetch S (this_jupiterTokensApiUrl S @ ''/token/'' @ m)"
  obtain r w2 where f: "?f w = (r, w2)" by (cases "?f w")
  with assms have "w1 = w2"
    by (auto simp: fetch_one_def split: sum.splits json_body.splits if_splits)
  with fetch_trace [OF f]
  show "fetched w1 = fetched w @ [this_jupiterTokensApiUrl S @ ''/token/'' @ m]"
    and "timers w1 = timers w"
    by simp_all
qed

lemma fetch_batch_trace:
  "fetch_batch S batch w = (rs, w1) \<Longrightarrow>
     map fst rs = batch
     \<and> fetched w1 = fetched w @ map (\<lambda>m. this_jupiterTokensApiUrl S @ ''/token/'' @ m) batch
     \<and> timers w1 = timers w"
proof (induction batch arbitrary: w rs w1)
  case Nil
  then show ?case by simp
next
  case (Cons m rest)
  obtain d w2 where f: "fetch_one S m w = (d, w2)" by (cases "fetch_one S m w")
  obtain rs' w3 where b: "fetch_batch S rest w2 = (rs', w3)" by (cases "fetch_batch S rest w2")
  from Cons.prems f b have e: "rs = (m, d) # rs'" "w1 = w3" by simp_all
  from Cons.IH [OF b] fetch_one_trace [OF f] e show ?case by simp
qed

lemma lookups_trace:
  "fallback_loop S mints i metadata w = (md, w') \<Longrightarrow>
     map fst (lookups S mints i w) = drop i mints
     \<and> fetched w' = fetched w @ map (\<lambda>m. this_jupiterTokensApiUrl S @ ''/token/'' @ m) (drop i mints)
     \<and> timers w' = timers w @ replicate ((length mints - i - 1) div metadata_batchSize) 100"
proof (induction S mints i metadata w rule: fallback_loop.induct)
  case (1 S mints i metadata w)
  show ?case
  proof (cases "i < length mints")
    case False
    with "1.prems" show ?thesis
      by (simp add: fallback_loop.simps [of S mints i] lookups.simps [of S mints i])
  next
    case True
    let ?batch = "take metadata_batchSize (drop i mints)"
    obtain results w1 where b: "fetch_batch S ?batch w = (results, w1)"
      by (cases "fetch_batch S ?batch w")
    let ?w2 = "if i + metadata_batchSize < length mints then setTimeout 100 w1 else w1"
    from "1.prems" True b
    have "fallback_loop S mints (i + metadata_batchSize) (assign_results results metadata) ?w2
        = (md, w')"
      by (simp add: fallback_loop.simps [of S mints i])
    from "1.IH" [OF True b [symmetric] this]
    have ih1: "map fst (lookups S mints (i + metadata_batchSize) ?w2)
          = drop (i + metadata_batchSize) mints"
      and ih2: "fetched w' = fetched ?w2
          @ map (\<lambda>m. this_jupiterTokensApiUrl S @ ''/token/'' @ m) (drop (i + metadata_batchSize) mints)"
      and ih3: "timers w' = timers ?w2
          @ replicate ((length mints - (i + metadata_batchSize) - 1) div metadata_batchSize) 100"
      by simp_all
    from fetch_batch_trace [OF b]
    have b1: "map fst results = ?batch"
      and b2: "fetched w1 = fetched w @ map (\<lambda>m. this_jupiterTokensApiUrl S @ ''/token/'' @ m) ?batch"
      and b3: "timers w1 = timers w"
      by simp_all
    have split: "?batch @ drop (i + metadata_batchSize) mints = drop i mints"
      by (metis add.commute append_take_drop_id drop_drop)
    have c1: "map fst (lookups S mints i w) = drop i mints"
      using True b b1 ih1 split by (simp add: lookups.simps [of S mints i])
    have "fetched ?w2 = fetched w1"
      by (simp add: setTimeout_def)
    with ih2 b2 have c2: "fetched w' = fetched w
        @ map (\<lambda>m. this_jupiterTokensApiUrl S @ ''/token/'' @ m) (drop i mints)"
      using split by (metis append.assoc map_append)
    have c3: "timers w' = timers w @ replicate ((length mints - i - 1) div metadata_batchSize) 100"
    proof (cases "i + metadata_batchSize < length mints")
      case False
      then have "(length mints - i - 1) div metadata_batchSize = 0"
        "(length mints - (i + metadata_batchSize) - 1) div metadata_batchSize = 0"
        by (simp_all add: metadata_batchSize_def)
      with ih3 b3 False show ?thesis by simp
    next
      case True
      then have "(length mints - i - 1) div metadata_batchSize
          = Suc ((length mints - (i + metadata_batchSize) - 1) div metadata_batchSize)"
        by (simp add: metadata_batchSize_def)
      with ih3 b3 True show ?thesis
        by (simp add: setTimeout_def replicate_append_same)
    qed
    from c1 c2 c3 show ?thesis by simp
  qed
qed


text \<open>
  The lookups of the fallback against the answers of the provider: one lookup notes what the
  answer to its fetch resolves to, a chunk makes no pause, and the loop pauses after every
  full chunk that is not the last.
\<close>

lemma fetch_one_answer:
  "fetch S (lookup_url S m) w = (a, w1) \<Longrightarrow> fetch_one S m w = (snd (resolved (m, a)), w1)"
  by (auto simp: fetch_one_def lookup_url_def resolved_def lookup_succeeded_def lookup_entry_def
      split: sum.splits json_body.splits)

lemma answers_chunk:
  "k mod 10 + length xs \<le> 10 \<Longrightarrow> fetch_batch S xs w = (rs, w1) \<Longrightarrow>
     \<exists>ax. rs = map resolved ax
       \<and> (\<forall>ys. answers S (xs @ ys) k w =
            (case answers S ys (k + length xs)
                    (if xs \<noteq> [] \<and> (k + length xs) mod 10 = 0 \<and> ys \<noteq> [] then setTimeout 100 w1
                     else w1) of
               (as, w2) \<Rightarrow> (ax @ as, w2)))"
proof (induction xs arbitrary: k w rs w1)
  case Nil
  then show ?case by (auto split: prod.splits)
next
  case (Cons m rest)
  obtain a wa where f: "fetch S (lookup_url S m) w = (a, wa)"
    by (cases "fetch S (lookup_url S m) w")
  obtain rs' w3 where b: "fetch_batch S rest wa = (rs', w3)" by (cases "fetch_batch S rest wa")
  from Cons.prems(2) fetch_one_answer [OF f] b
  have e: "rs = resolved (m, a) # rs'" "w1 = w3" by (simp_all add: resolved_def)
  show ?case
  proof (cases "rest = []")
    case True
    with b have "rs' = []" "w3 = wa" by simp_all
    with e f True have "rs = map resolved [(m, a)]
        \<and> (\<forall>ys. answers S ((m # rest) @ ys) k w =
            (case answers S ys (k + length (m # rest))
                    (if m # rest \<noteq> [] \<and> (k + length (m # rest)) mod 10 = 0 \<and> ys \<noteq> []
                     then setTimeout 100 w1 else w1) of
               (as, w2) \<Rightarrow> ([(m, a)] @ as, w2)))"
      by (simp split: prod.splits)
    then show ?thesis by blast
  next
    case False
    with Cons.prems(1) have small: "k mod 10 < 9" by (cases rest) simp_all
    then have s: "Suc k mod 10 = Suc (k mod 10)" by (simp add: mod_Suc)
    with Cons.prems(1) have "Suc k mod 10 + length rest \<le> 10" by simp
    from Cons.IH [OF this b] obtain ax
      where ax: "rs' = map resolved ax"
        and run: "\<forall>ys. answers S (rest @ ys) (Suc k) wa =
            (case answers S ys (Suc k + length rest)
                    (if rest \<noteq> [] \<and> (Suc k + length rest) mod 10 = 0 \<and> ys \<noteq> []
                     then setTimeout 100 w3 else w3) of
               (as, w2) \<Rightarrow> (ax @ as, w2))"
      by blast
    from e ax f run s False
    have "rs = map resolved ((m, a) # ax)
        \<and> (\<forall>ys. answers S ((m # rest) @ ys) k w =
            (case answers S ys (k + length (m # rest))
                    (if m # rest \<noteq> [] \<and> (k + length (m # rest)) mod 10 = 0 \<and> ys \<noteq> []
                     then setTimeout 100 w1 else w1) of
               (as, w2) \<Rightarrow> (((m, a) # ax) @ as, w2)))"
      by (simp split: prod.splits)
    then show ?thesis by blast
  qed
qed

lemma assign_results_append:
  "assign_results (xs @ ys) m0 = assign_results ys (assign_results xs m0)"
  by (induction xs m0 rule: assign_results.induct) simp_all

lemma fallback_loop_answers:
  "fallback_loop S mints i metadata w = (md, w') \<Longrightarrow> i mod 10 = 0 \<Longrightarrow>
     \<exists>as. answers S (drop i mints) i w = (as, w')
       \<and> md = assign_results (map resolved as) metadata"
proof (induction S mints i metadata w rule: fallback_loop.induct)
  case (1 S mints i metadata w)
  show ?case
  proof (cases "i < length mints")
    case False
    with "1.prems" show ?thesis
      by (simp add: fallback_loop.simps [of S mints i])
  next
    case True
    let ?batch = "take metadata_batchSize (drop i mints)"
    let ?ys = "drop (i + metadata_batchSize) mints"
    obtain results w1 where b: "fetch_batch S ?batch w = (results, w1)"
      by (cases "fetch_batch S ?batch w")
    let ?w2 = "if i + metadata_batchSize < length mints then setTimeout 100 w1 else w1"
    from "1.prems" True b
    have next_run: "fallback_loop S mints (i + metadata_batchSize) (assign_results results metadata) ?w2
        = (md, w')"
      by (simp add: fallback_loop.simps [of S mints i])
    have "(i + metadata_batchSize) mod 10 = 0"
      using "1.prems"(2) by (simp add: metadata_batchSize_def)
    from "1.IH" [OF True b [symmetric] next_run this] obtain as'
      where ih: "answers S ?ys (i + metadata_batchSize) ?w2 = (as', w')"
        and md: "md = assign_results (map resolved as') (assign_results results metadata)"
      by blast
    have split: "?batch @ ?ys = drop i mints"
      by (metis add.commute append_take_drop_id drop_drop)
    have "i mod 10 + length ?batch \<le> 10"
      using "1.prems"(2) by (simp add: metadata_batchSize_def)
    from answers_chunk [OF this b] obtain ax
      where ax: "results = map resolved ax"
        and run: "answers S (?batch @ ?ys) i w =
            (case answers S ?ys (i + length ?batch)
                    (if ?batch \<noteq> [] \<and> (i + length ?batch) mod 10 = 0 \<and> ?ys \<noteq> []
                     then setTimeout 100 w1 else w1) of
               (as, w2) \<Rightarrow> (ax @ as, w2))"
      by blast
    have "answers S (drop i mints) i w = (ax @ as', w')"
    proof (cases "i + metadata_batchSize < length mints")
      case False
      then have "?ys = []" by simp
      with ih run False show ?thesis unfolding split by simp
    next
      case far: True
      then have "length ?batch = metadata_batchSize" "?ys \<noteq> []" "?batch \<noteq> []"
        by (auto simp: metadata_batchSize_def)
      with ih run far "1.prems"(2) show ?thesis
        unfolding split by (simp add: metadata_batchSize_def)
    qed
    with md ax show ?thesis
      by (simp add: assign_results_append)
  qed
qed

lemma answers_mints: "answers S xs k w = (as, w') \<Longrightarrow> map fst as = xs"
  by (induction xs arbitrary: k w as w') (auto split: prod.splits)

lemma assign_resolved:
  "assign_results (map resolved as) Map.empty m =
     (case filter (\<lambda>a. fst a = m \<and> lookup_succeeded (snd a)) as of
        [] \<Rightarrow> None
      | a # as' \<Rightarrow> Some (lookup_entry (snd (last (a # as')))))"
  by (induction as rule: rev_induct)
    (auto simp: assign_results_append resolved_def split: list.splits)

text \<open>
  Claim C5. For a list of mints that is not empty \<open>getTokenMetadata\<close> never raises. When the
  fetch of the catalogue succeeds, the result has an entry for every requested mint and for
  no other: the entry of the catalogue for a mint that is listed (the last one, with the
  defaults for empty fields), and symbol \<open>Unknown\<close>, name \<open>Unknown Token\<close> and no image for a
  mint that is not; no lookup and no delay follows. When it fails, the provider is asked for
  every requested mint once, in order, with 100 ms awaited after every tenth lookup that is
  not the last. The result holds exactly the mints for which a lookup succeeded, that is, was
  answered with an ok response whose body can be read and is not \<open>null\<close>; the entry of such
  a mint is read from the body of the last such answer; a mint whose lookups were rejected,
  not ok or unreadable is left out.
\<close>

theorem getTokenMetadata_resolution:
  assumes "mints \<noteq> []"
  shows "(\<forall>allTokens. catalogue S w = Some allTokens \<longrightarrow>
            (\<exists>md w'. getTokenMetadata S mints w = (Inr md, w')
               \<and> dom md = set mints
               \<and> (\<forall>m\<in>set mints.
                     md m = Some (case filter (\<lambda>t. tj_address t = Some m) allTokens of
                                    [] \<Rightarrow> unknown_metadata
                                  | t # ts \<Rightarrow> metadata_of (last (t # ts))))
               \<and> fetched w' = fetched w @ [this_jupiterTokensApiUrl S]
               \<and> timers w' = timers w))
       \<and> (catalogue S w = None \<longrightarrow>
            (\<exists>md as w'. getTokenMetadata S mints w = (Inr md, w')
               \<and> answers S mints 0 (snd (fetch S (this_jupiterTokensApiUrl S) w)) = (as, w')
               \<and> map fst as = mints
               \<and> dom md = {m. \<exists>a. (m, a) \<in> set as \<and> lookup_succeeded a}
               \<and> (\<forall>m. md m = (case filter (\<lambda>a. fst a = m \<and> lookup_succeeded (snd a)) as of
                                 [] \<Rightarrow> None
                               | a # as' \<Rightarrow> Some (lookup_entry (snd (last (a # as'))))))
               \<and> fetched w' = fetched w @ this_jupiterTokensApiUrl S # map (lookup_url S) mints
               \<and> timers w' = timers w @ replicate ((length mints - 1) div 10) 100))"
proof (intro conjI allI impI)
  fix allTokens
  assume c: "catalogue S w = Some allTokens"
  obtain r w1 where f: "fetch S (this_jupiterTokensApiUrl S) w = (r, w1)"
    by (cases "fetch S (this_jupiterTokensApiUrl S) w")
  from c f obtain response where r: "r = Inr response" "rsp_ok response"
      "rsp_json response = Inr (TokenList allTokens)"
    by (auto simp: catalogue_def split: sum.splits if_splits json_body.splits)
  let ?md = "extract_metadata mints (build_tokenMap allTokens Map.empty) Map.empty"
  from assms f r have g: "getTokenMetadata S mints w = (Inr ?md, w1)"
    by (simp add: getTokenMetadata_def)
  have d: "dom ?md = set mints"
    by (auto simp: extract_metadata_eq dom_def)
  have v: "\<forall>m\<in>set mints.
      ?md m = Some (case filter (\<lambda>t. tj_address t = Some m) allTokens of
                      [] \<Rightarrow> unknown_metadata
                    | t # ts \<Rightarrow> metadata_of (last (t # ts)))"
    by (auto simp: extract_metadata_eq build_tokenMap_eq split: list.splits)
  from g d v fetch_trace [OF f]
  show "\<exists>md w'. getTokenMetadata S mints w = (Inr md, w')
      \<and> dom md = set mints
      \<and> (\<forall>m\<in>set mints.
            md m = Some (case filter (\<lambda>t. tj_address t = Some m) allTokens of
                           [] \<Rightarrow> unknown_metadata
                         | t # ts \<Rightarrow> metadata_of (last (t # ts))))
      \<and> fetched w' = fetched w @ [this_jupiterTokensApiUrl S]
      \<and> timers w' = timers w"
    by blast
next
  assume c: "catalogue S w = None"
  obtain r w1 where f: "fetch S (this_jupiterTokensApiUrl S) w = (r, w1)"
    by (cases "fetch S (this_jupiterTokensApiUrl S) w")
  obtain md w2 where l: "fallback_loop S mints 0 Map.empty w1 = (md, w2)"
    by (cases "fallback_loop S mints 0 Map.empty w1")
  from assms c f l have g: "getTokenMetadata S mints w = (Inr md, w2)"
    by (auto simp: getTokenMetadata_def catalogue_def Let_def
        split: sum.splits if_splits json_body.splits)
  from fallback_loop_answers [OF l] obtain as
    where a: "answers S mints 0 w1 = (as, w2)"
      and md: "md = assign_results (map resolved as) Map.empty"
    by auto
  from lookups_trace [OF l] fetch_trace [OF f]
  have t2: "fetched w2 = fetched w @ this_jupiterTokensApiUrl S # map (lookup_url S) mints"
    and t3: "timers w2 = timers w @ replicate ((length mints - 1) div 10) 100"
    by (simp_all add: lookup_url_def [abs_def] metadata_batchSize_def)
  have v: "\<forall>m. md m = (case filter (\<lambda>a. fst a = m \<and> lookup_succeeded (snd a)) as of
                        [] \<Rightarrow> None
                      | a # as' \<Rightarrow> Some (lookup_entry (snd (last (a # as')))))"
    by (simp add: md assign_resolved)
  have d: "dom md = {m. \<exists>a. (m, a) \<in> set as \<and> lookup_succeeded a}"
  proof (rule set_eqI)
    fix m
    let ?hits = "filter (\<lambda>a. fst a = m \<and> lookup_succeeded (snd a)) as"
    have "m \<in> dom md \<longleftrightarrow> ?hits \<noteq> []"
      using v [rule_format, of m] by (cases ?hits) (simp_all add: dom_def)
    also have "\<dots> \<longleftrightarrow> (\<exists>a. (m, a) \<in> set as \<and> lookup_succeeded a)"
      by (force simp: filter_empty_conv)
    finally show "m \<in> dom md \<longleftrightarrow> m \<in> {m. \<exists>a. (m, a) \<in> set as \<and> lookup_succeeded a}"
      by simp
  qed
  from g a answers_mints [OF a] d v t2 t3 f
  show "\<exists>md as w'. getTokenMetadata S mints w = (Inr md, w')
      \<and> answers S mints 0 (snd (fetch S (this_jupiterTokensApiUrl S) w)) = (as, w')
      \<and> map fst as = mints
      \<and> dom md = {m. \<exists>a. (m, a) \<in> set as \<and> lookup_succeeded a}
      \<and> (\<forall>m. md m = (case filter (\<lambda>a. fst a = m \<and> lookup_succeeded (snd a)) as of
                        [] \<Rightarrow> None
                      | a # as' \<Rightarrow> Some (lookup_entry (snd (last (a # as'))))))
      \<and> fetched w' = fetched w @ this_jupiterTokensApiUrl S # map (lookup_url S) mints
      \<and> timers w' = timers w @ replicate ((length mints - 1) div 10) 100"
    by simp
qed

lemma catalogue_up: "catalogue service_up world0 = Some [m1_json]"
  by (simp add: catalogue_def fetch_def await_def service_up_def respond_def ok_json_def)

lemma catalogue_fallback: "catalogue service_fallback world0 = None"
  by (simp add: catalogue_def fetch_def await_def service_fallback_def service_up_def respond_def
      not_found_def)

lemma answers_fallback:
  "fst (answers service_fallback twelve_mints 0
          (snd (fetch service_fallback (this_jupiterTokensApiUrl service_fallback) world0)))
   = [(''M1'', Inr (ok_json (TokenObject m1_json))), (''M2'', Inr not_found),
      (''M3'', Inl (Error ''fetch failed'')), (''M4'', Inr (ok_json JsonNull)),
      (''M5'', Inr not_found), (''M6'', Inr not_found), (''M7'', Inr not_found),
      (''M8'', Inr not_found), (''M9'', Inr not_found), (''M10'', Inr not_found),
      (''M11'', Inr not_found), (''M12'', Inr (ok_json (TokenObject blank_json)))]"
  by (simp add: twelve_mints_def lookup_url_def fetch_def await_def service_fallback_def
      service_up_def respond_def unreachable_def setTimeout_def)

theorem getTokenMetadata_resolution_witness:
  "twelve_mints \<noteq> []
   \<and> catalogue service_up world0 = Some [m1_json]
   \<and> (\<exists>md w'. getTokenMetadata service_up twelve_mints world0 = (Inr md, w')
         \<and> dom md = set twelve_mints
         \<and> md ''M1'' = Some \<lparr>md_symbol = ''ONE'', md_name = ''Token One'', md_logoURI = None\<rparr>
         \<and> md ''M2'' = Some \<lparr>md_symbol = ''Unknown'', md_name = ''Unknown Token'', md_logoURI = None\<rparr>
         \<and> fetched w' = [''tokens'']
         \<and> timers w' = [])
   \<and> catalogue service_fallback world0 = None
   \<and> (\<exists>md w'. getTokenMetadata service_fallback twelve_mints world0 = (Inr md, w')
         \<and> dom md = {''M1'', ''M12''}
         \<and> md ''M1'' = Some \<lparr>md_symbol = ''ONE'', md_name = ''Token One'', md_logoURI = None\<rparr>
         \<and> md ''M12'' = Some \<lparr>md_symbol = ''Unknown'', md_name = ''Unknown Token'', md_logoURI = None\<rparr>
         \<and> md ''M2'' = None \<and> md ''M3'' = None \<and> md ''M4'' = None
         \<and> fetched w'
             = [''tokens'', ''tokens/token/M1'', ''tokens/token/M2'', ''tokens/token/M3'',
                ''tokens/token/M4'', ''tokens/token/M5'', ''tokens/token/M6'', ''tokens/token/M7'',
                ''tokens/token/M8'', ''tokens/token/M9'', ''tokens/token/M10'',
                ''tokens/token/M11'', ''tokens/token/M12'']
         \<and> timers w' = [100])"
proof -
  have ne: "twelve_mints \<noteq> []" by (simp add: twelve_mints_def)
  note res = getTokenMetadata_resolution [OF ne]
  from res [of service_up world0, THEN conjunct1, rule_format, OF catalogue_up]
  obtain md w' where u: "getTokenMetadata service_up twelve_mints world0 = (Inr md, w')"
    and ud: "dom md = set twelve_mints"
    and uv: "\<forall>m\<in>set twelve_mints.
        md m = Some (case filter (\<lambda>t. tj_address t = Some m) [m1_json] of
                       [] \<Rightarrow> unknown_metadata
                     | t # ts \<Rightarrow> metadata_of (last (t # ts)))"
    and uf: "fetched w' = fetched world0 @ [this_jupiterTokensApiUrl service_up]"
    and ut: "timers w' = timers world0"
    by blast
  have in1: "''M1'' \<in> set twelve_mints" and in2: "''M2'' \<in> set twelve_mints"
    by (simp_all add: twelve_mints_def)
  from uv [rule_format, OF in1]
  have u1: "md ''M1'' = Some \<lparr>md_symbol = ''ONE'', md_name = ''Token One'', md_logoURI = None\<rparr>"
    by (simp add: m1_json_def metadata_of_def or_else_def or_null_def)
  from uv [rule_format, OF in2]
  have u2: "md ''M2'' = Some \<lparr>md_symbol = ''Unknown'', md_name = ''Unknown Token'', md_logoURI = None\<rparr>"
    by (simp add: m1_json_def unknown_metadata_def)
  from uf have u3: "fetched w' = [''tokens'']"
    by (simp add: world0_def service_up_def)
  from ut have u4: "timers w' = []"
    by (simp add: world0_def)
  from u ud u1 u2 u3 u4
  have up: "\<exists>md w'. getTokenMetadata service_up twelve_mints world0 = (Inr md, w')
         \<and> dom md = set twelve_mints
         \<and> md ''M1'' = Some \<lparr>md_symbol = ''ONE'', md_name = ''Token One'', md_logoURI = None\<rparr>
         \<and> md ''M2'' = Some \<lparr>md_symbol = ''Unknown'', md_name = ''Unknown Token'', md_logoURI = None\<rparr>
         \<and> fetched w' = [''tokens'']
         \<and> timers w' = []"
    by blast
  from res [of service_fallback world0, THEN conjunct2, rule_format, OF catalogue_fallback]
  obtain md2 as w2
    where p: "getTokenMetadata service_fallback twelve_mints world0 = (Inr md2, w2)"
      and pa: "answers service_fallback twelve_mints 0
          (snd (fetch service_fallback (this_jupiterTokensApiUrl service_fallback) world0))
          = (as, w2)"
      and pd: "dom md2 = {m. \<exists>a. (m, a) \<in> set as \<and> lookup_succeeded a}"
      and pv: "\<forall>m. md2 m = (case filter (\<lambda>a. fst a = m \<and> lookup_succeeded (snd a)) as of
                              [] \<Rightarrow> None
                            | a # as' \<Rightarrow> Some (lookup_entry (snd (last (a # as')))))"
      and pf: "fetched w2 = fetched world0 @ this_jupiterTokensApiUrl service_fallback
          # map (lookup_url service_fallback) twelve_mints"
      and pt: "timers w2 = timers world0 @ replicate ((length twelve_mints - 1) div 10) 100"
    by blast
  from pa answers_fallback
  have as: "as = [(''M1'', Inr (ok_json (TokenObject m1_json))), (''M2'', Inr not_found),
      (''M3'', Inl (Error ''fetch failed'')), (''M4'', Inr (ok_json JsonNull)),
      (''M5'', Inr not_found), (''M6'', Inr not_found), (''M7'', Inr not_found),
      (''M8'', Inr not_found), (''M9'', Inr not_found), (''M10'', Inr not_found),
      (''M11'', Inr not_found), (''M12'', Inr (ok_json (TokenObject blank_json)))]"
    by simp
  have ok: "lookup_succeeded (Inr (ok_json (TokenObject t)))"
      "\<not> lookup_succeeded (Inr not_found)"
      "\<not> lookup_succeeded (Inl e)"
      "\<not> lookup_succeeded (Inr (ok_json JsonNull))"
    for t e
    by (simp_all add: lookup_succeeded_def ok_json_def not_found_def)
  have hit: "(\<exists>a. (m, a) \<in> set as \<and> lookup_succeeded a) \<longleftrightarrow> m = ''M1'' \<or> m = ''M12''" for m
    unfolding as set_simps insert_iff empty_iff prod.inject
    by (simp only: conj_disj_distribR ex_disj_distrib) (simp add: ok)
  from pd have f1: "dom md2 = {''M1'', ''M12''}"
    unfolding hit by blast
  from pv [rule_format, of "''M1''"]
  have f2: "md2 ''M1'' = Some \<lparr>md_symbol = ''ONE'', md_name = ''Token One'', md_logoURI = None\<rparr>"
    unfolding as
    by (simp add: ok)
      (simp add: lookup_entry_def ok_json_def m1_json_def metadata_of_def or_else_def or_null_def)
  from pv [rule_format, of "''M12''"]
  have f3: "md2 ''M12''
      = Some \<lparr>md_symbol = ''Unknown'', md_name = ''Unknown Token'', md_logoURI = None\<rparr>"
    unfolding as
    by (simp add: ok)
      (simp add: lookup_entry_def ok_json_def blank_json_def metadata_of_def or_else_def
        or_null_def)
  from f1 have "''M2'' \<notin> dom md2" "''M3'' \<notin> dom md2" "''M4'' \<notin> dom md2"
    by simp_all
  then have f4: "md2 ''M2'' = None" "md2 ''M3'' = None" "md2 ''M4'' = None"
    by (simp_all add: domIff)
  from pf have f5: "fetched w2
      = [''tokens'', ''tokens/token/M1'', ''tokens/token/M2'', ''tokens/token/M3'',
         ''tokens/token/M4'', ''tokens/token/M5'', ''tokens/token/M6'', ''tokens/token/M7'',
         ''tokens/token/M8'', ''tokens/token/M9'', ''tokens/token/M10'',
         ''tokens/token/M11'', ''tokens/token/M12'']"
    by (simp add: world0_def service_fallback_def service_up_def lookup_url_def twelve_mints_def)
  from pt have f6: "timers w2 = [100]"
    by (simp add: world0_def twelve_mints_def)
  from p f1 f2 f3 f4 f5 f6
  have part: "\<exists>md w'. getTokenMetadata service_fallback twelve_mints world0 = (Inr md, w')
         \<and> dom md = {''M1'', ''M12''}
         \<and> md ''M1'' = Some \<lparr>md_symbol = ''ONE'', md_name = ''Token One'', md_logoURI = None\<rparr>
         \<and> md ''M12'' = Some \<lparr>md_symbol = ''Unknown'', md_name = ''Unknown Token'', md_logoURI = None\<rparr>
         \<and> md ''M2'' = None \<and> md ''M3'' = None \<and> md ''M4'' = None
         \<and> fetched w'
             = [''tokens'', ''tokens/token/M1'', ''tokens/token/M2'', ''tokens/token/M3'',
                ''tokens/token/M4'', ''tokens/token/M5'', ''tokens/token/M6'', ''tokens/token/M7'',
                ''tokens/token/M8'', ''tokens/token/M9'', ''tokens/token/M10'',
                ''tokens/token/M11'', ''tokens/token/M12'']
         \<and> timers w' = [100]"
    by blast
  show ?thesis
    by (intro conjI ne catalogue_up up catalogue_fallback part)
qed
section \<open>Token prices\<close>







text \<open>The clock never runs backwards.\<close>

lemma clock_await: "await call w = (r, w1) \<Longrightarrow> clock w \<le> clock w1"
  by (auto simp: await_def split: prod.splits)












lemma up_catalogue_any: "getTokenMetadata service_up (m # ms) w
    = (Inr (extract_metadata (m # ms) (build_tokenMap [m1_json] Map.empty) Map.empty),
       w\<lparr>fetched := fetched w @ [''tokens''], ext := Suc (ext w), clock := clock w + 20\<rparr>)"
  by (simp add: getTokenMetadata_def fetch_def await_def service_up_def respond_def ok_json_def)







section \<open>Wallet data\<close>

lemma named_metadata_of: "named (metadata_of t)"
  by (simp add: named_def metadata_of_def or_else_def split: option.splits)

lemma named_unknown: "named unknown_metadata"
  by (simp add: named_def unknown_metadata_def)

lemma fetch_one_named: "fetch_one S m w = (Some d, w1) \<Longrightarrow> named d"
  by (auto simp: fetch_one_def named_metadata_of named_unknown
      split: prod.splits sum.splits json_body.splits if_splits)

lemma fetch_batch_named:
  "fetch_batch S batch w = (rs, w1) \<Longrightarrow> (m, Some d) \<in> set rs \<Longrightarrow> named d"
proof (induction batch arbitrary: w rs w1)
  case Nil
  then show ?case by simp
next
  case (Cons m0 rest)
  obtain d0 w2 where f: "fetch_one S m0 w = (d0, w2)" by (cases "fetch_one S m0 w")
  obtain rs' w3 where b: "fetch_batch S rest w2 = (rs', w3)" by (cases "fetch_batch S rest w2")
  from Cons.prems(1) f b have e: "rs = (m0, d0) # rs'" by simp
  with Cons.prems(2) have "(m0, d0) = (m, Some d) \<or> (m, Some d) \<in> set rs'" by auto
  then show ?case
  proof
    assume "(m0, d0) = (m, Some d)"
    with f fetch_one_named show ?thesis by blast
  next
    assume "(m, Some d) \<in> set rs'"
    with Cons.IH [OF b] show ?thesis .
  qed
qed

lemma lookups_named: "(m, Some d) \<in> set (lookups S mints i w) \<Longrightarrow> named d"
proof (induction S mints i w rule: lookups.induct)
  case (1 S mints i w)
  show ?case
  proof (cases "i < length mints")
    case False
    with "1.prems" show ?thesis by (simp add: lookups.simps [of S mints i])
  next
    case True
    let ?batch = "take metadata_batchSize (drop i mints)"
    obtain results w1 where b: "fetch_batch S ?batch w = (results, w1)"
      by (cases "fetch_batch S ?batch w")
    let ?w2 = "if i + metadata_batchSize < length mints then setTimeout 100 w1 else w1"
    from "1.prems" True b
    have "(m, Some d) \<in> set results \<or> (m, Some d) \<in> set (lookups S mints (i + metadata_batchSize) ?w2)"
      by (simp add: lookups.simps [of S mints i])
    then show ?thesis
    proof
      assume "(m, Some d) \<in> set results"
      with fetch_batch_named [OF b] show ?thesis .
    next
      assume "(m, Some d) \<in> set (lookups S mints (i + metadata_batchSize) ?w2)"
      with "1.IH" [OF True b [symmetric]] show ?thesis by simp
    qed
  qed
qed

lemma getTokenMetadata_named:
  assumes "getTokenMetadata S mints w = (Inr md, w')" and "md m = Some d"
  shows "named d"
proof (cases "mints = []")
  case True
  with assms show ?thesis by (auto simp: getTokenMetadata_def)
next
  case False
  show ?thesis
  proof (cases "catalogue S w")
    case (Some allTokens)
    obtain r w1 where f: "fetch S (this_jupiterTokensApiUrl S) w = (r, w1)"
      by (cases "fetch S (this_jupiterTokensApiUrl S) w")
    from Some f obtain response where r: "r = Inr response" "rsp_ok response"
        "rsp_json response = Inr (TokenList allTokens)"
      by (auto simp: catalogue_def split: sum.splits if_splits json_body.splits)
    from False f r assms(1)
    have "md = extract_metadata mints (build_tokenMap allTokens Map.empty) Map.empty"
      by (simp add: getTokenMetadata_def)
    with assms(2) show ?thesis
      by (auto simp: extract_metadata_eq build_tokenMap_eq named_metadata_of named_unknown
          split: if_splits list.splits)
  next
    case None
    obtain r w1 where f: "fetch S (this_jupiterTokensApiUrl S) w = (r, w1)"
      by (cases "fetch S (this_jupiterTokensApiUrl S) w")
    obtain md2 w2 where l: "fallback_loop S mints 0 Map.empty w1 = (md2, w2)"
      by (cases "fallback_loop S mints 0 Map.empty w1")
    from False None f l assms(1) have "md = md2"
      by (auto simp: getTokenMetadata_def catalogue_def Let_def
          split: sum.splits if_splits json_body.splits)
    with fallback_loop_lookups [OF l]
    have md: "md = assign_results (lookups S mints 0 w1) Map.empty" by simp
    let ?hits = "filter (\<lambda>r. fst r = m \<and> snd r \<noteq> None) (lookups S mints 0 w1)"
    from assms(2) md obtain x xs where h: "?hits = x # xs" "snd (last (x # xs)) = Some d"
      by (auto simp: assign_results_eq split: list.splits)
    then have "last (x # xs) \<in> set ?hits" by (metis last_in_set list.distinct(1))
    then have "last (x # xs) \<in> set (lookups S mints 0 w1)" by simp
    with h(2) have "(fst (last (x # xs)), Some d) \<in> set (lookups S mints 0 w1)"
      by (metis prod.collapse)
    then show ?thesis by (rule lookups_named)
  qed
qed

lemma foldl_plus: "foldl (\<lambda>sum t. sum + f t) a xs = a + sum_list (map f xs)"
  for a :: real
  by (induction xs arbitrary: a) simp_all

lemma total_usd_sum: "total_usd tokens = sum_list (map usd_or_0 tokens)"
  using foldl_plus [of usd_or_0 0 tokens] by (simp add: total_usd_def usd_or_0_def [abs_def])

text \<open>The four calls behind a wallet that was fetched.\<close>

lemma fetch_wallet_stages:
  assumes "fetch_wallet S address w = (Inr (solBalance, tokenAccounts, metadata, prices), w2)"
  shows "\<exists>wa wb wc.
      getSOLBalance S address w = (Inr solBalance, wa)
      \<and> getTokenAccounts S address wa = (Inr tokenAccounts, wb)
      \<and> getTokenMetadata S (map ta_mint tokenAccounts) wb = (Inr metadata, wc)
      \<and> getTokenPrices S (map ta_mint tokenAccounts) wc = (Inr prices, w2)"
  using assms
  by (auto simp: fetch_wallet_def Promise_all2_def Let_def split: prod.splits sum.splits)

lemma enhance_keeps:
  "ta_mint (enhance metadata prices t) = ta_mint t"
  "ta_amount (enhance metadata prices t) = ta_amount t"
  "ta_decimals (enhance metadata prices t) = ta_decimals t"
  "ta_usdValue (enhance metadata prices t)
     = Some (case prices (ta_mint t) of Some pd \<Rightarrow> ta_amount t * pd_price pd | None \<Rightarrow> 0)"
  by (simp_all add: enhance_def Let_def)

lemma enhance_named:
  "metadata (ta_mint t) = Some d \<Longrightarrow> named d \<Longrightarrow>
     ta_symbol (enhance metadata prices t) = Some (md_symbol d)
     \<and> ta_name (enhance metadata prices t) = Some (md_name d)"
  by (simp add: enhance_def Let_def named_def or_else_def)

lemma enhance_unnamed:
  "metadata (ta_mint t) = None \<Longrightarrow>
     ta_symbol (enhance metadata prices t)
       = Some (or_else (map_option pd_symbol (prices (ta_mint t))) ''Unknown'')
     \<and> ta_name (enhance metadata prices t)
       = Some (or_else (map_option pd_name (prices (ta_mint t))) ''Unknown Token'')"
  by (simp add: enhance_def Let_def or_else_def [of None])

text \<open>
  Claim C8. When \<open>getWalletData\<close> returns a wallet, its holdings are the token accounts that
  were fetched, with mint, amount and decimals unchanged. A holding whose mint the metadata
  resolver resolved carries the resolver's symbol and name (otherwise those of the price data,
  or \<open>Unknown\<close> and \<open>Unknown Token\<close>); its \<open>usdValue\<close> is its amount times the resolved price,
  and 0 when no price was resolved. \<open>totalUsdValue\<close> is the sum of these values; the native
  balance is no part of it.
\<close>

theorem getWalletData_valuation:
  assumes "getWalletData S address walletId w = (Inr wd, w')"
  shows "\<exists>solBalance tokenAccounts metadata prices wa wb wc w2.
      getSOLBalance S address w = (Inr solBalance, wa)
      \<and> getTokenAccounts S address wa = (Inr tokenAccounts, wb)
      \<and> getTokenMetadata S (map ta_mint tokenAccounts) wb = (Inr metadata, wc)
      \<and> getTokenPrices S (map ta_mint tokenAccounts) wc = (Inr prices, w2)
      \<and> wd_address wd = address
      \<and> wd_solBalance wd = solBalance
      \<and> map ta_mint (wd_tokens wd) = map ta_mint tokenAccounts
      \<and> map ta_amount (wd_tokens wd) = map ta_amount tokenAccounts
      \<and> map ta_decimals (wd_tokens wd) = map ta_decimals tokenAccounts
      \<and> (\<forall>t\<in>set (wd_tokens wd).
            (\<forall>d. metadata (ta_mint t) = Some d \<longrightarrow>
                  ta_symbol t = Some (md_symbol d) \<and> ta_name t = Some (md_name d))
            \<and> (metadata (ta_mint t) = None \<longrightarrow>
                  ta_symbol t = Some (or_else (map_option pd_symbol (prices (ta_mint t))) ''Unknown'')
                  \<and> ta_name t
                      = Some (or_else (map_option pd_name (prices (ta_mint t))) ''Unknown Token''))
            \<and> ta_usdValue t
                = Some (case prices (ta_mint t) of
                          Some pd \<Rightarrow> ta_amount t * pd_price pd
                        | None \<Rightarrow> 0))
      \<and> wd_totalUsdValue wd = sum_list (map usd_or_0 (wd_tokens wd))"
proof -
  from assms obtain solBalance tokenAccounts metadata prices w2
    where fw: "fetch_wallet S address w = (Inr (solBalance, tokenAccounts, metadata, prices), w2)"
    by (auto simp: getWalletData_def Let_def split: prod.splits sum.splits)
  from fetch_wallet_stages [OF fw] obtain wa wb wc
    where st: "getSOLBalance S address w = (Inr solBalance, wa)"
      "getTokenAccounts S address wa = (Inr tokenAccounts, wb)"
      "getTokenMetadata S (map ta_mint tokenAccounts) wb = (Inr metadata, wc)"
      "getTokenPrices S (map ta_mint tokenAccounts) wc = (Inr prices, w2)"
    by blast
  from assms fw have wd: "wd =
      \<lparr>wd_address = address, wd_solBalance = solBalance,
       wd_tokens = map (enhance metadata prices) tokenAccounts,
       wd_totalUsdValue = total_usd (map (enhance metadata prices) tokenAccounts),
       wd_lastUpdated = clock w2\<rparr>"
    by (simp add: getWalletData_def Let_def)
  have each: "\<forall>t\<in>set (wd_tokens wd).
      (\<forall>d. metadata (ta_mint t) = Some d \<longrightarrow>
            ta_symbol t = Some (md_symbol d) \<and> ta_name t = Some (md_name d))
      \<and> (metadata (ta_mint t) = None \<longrightarrow>
            ta_symbol t = Some (or_else (map_option pd_symbol (prices (ta_mint t))) ''Unknown'')
            \<and> ta_name t = Some (or_else (map_option pd_name (prices (ta_mint t))) ''Unknown Token''))
      \<and> ta_usdValue t
          = Some (case prices (ta_mint t) of Some pd \<Rightarrow> ta_amount t * pd_price pd | None \<Rightarrow> 0)"
  proof
    fix t
    assume "t \<in> set (wd_tokens wd)"
    then obtain t0 where t: "t = enhance metadata prices t0"
      by (auto simp: wd)
    show "(\<forall>d. metadata (ta_mint t) = Some d \<longrightarrow>
            ta_symbol t = Some (md_symbol d) \<and> ta_name t = Some (md_name d))
      \<and> (metadata (ta_mint t) = None \<longrightarrow>
            ta_symbol t = Some (or_else (map_option pd_symbol (prices (ta_mint t))) ''Unknown'')
            \<and> ta_name t = Some (or_else (map_option pd_name (prices (ta_mint t))) ''Unknown Token''))
      \<and> ta_usdValue t
          = Some (case prices (ta_mint t) of Some pd \<Rightarrow> ta_amount t * pd_price pd | None \<Rightarrow> 0)"
      unfolding t enhance_keeps
      using enhance_named [of metadata t0 _ prices] enhance_unnamed [of metadata t0 prices]
        getTokenMetadata_named [OF st(3)]
      by auto
  qed
  have maps: "map ta_mint (wd_tokens wd) = map ta_mint tokenAccounts"
    "map ta_amount (wd_tokens wd) = map ta_amount tokenAccounts"
    "map ta_decimals (wd_tokens wd) = map ta_decimals tokenAccounts"
    by (simp_all add: wd enhance_keeps)
  have tot: "wd_totalUsdValue wd = sum_list (map usd_or_0 (wd_tokens wd))"
    by (simp add: wd total_usd_sum)
  have hd: "wd_address wd = address" "wd_solBalance wd = solBalance"
    by (simp_all add: wd)
  from st hd maps each tot show ?thesis by blast
qed

lemma find_upsert_wallet:
  "find (\<lambda>q. wb_wallet_address q = a) (upsert_wallet r qs)
     = (if wb_wallet_address r = a then Some r else find (\<lambda>q. wb_wallet_address q = a) qs)"
  by (induction qs) auto

lemma pipeline_fails_fetch_wallet:
  "pipeline_fails S address w err \<longleftrightarrow> fst (fetch_wallet S address w) = Inl err"
  by (auto simp: pipeline_fails_def fetch_wallet_def Promise_all2_def Let_def
      split: prod.splits sum.splits)

text \<open>\<open>getWalletData\<close> raises an error exactly when its fetch pipeline fails with it.\<close>

lemma getWalletData_raises_iff:
  "fst (getWalletData S address walletId w) = Inl err \<longleftrightarrow> pipeline_fails S address w err"
  unfolding pipeline_fails_fetch_wallet
  by (auto simp: getWalletData_def Let_def split: prod.splits sum.splits)

text \<open>
  Claim C4. When the fetch pipeline of an address fails, \<open>getWalletData\<close> raises the error of
  the pipeline, unchanged, and the wallet table then holds the row of the address with status
  \<open>error\<close>, native balance 0, no holdings and the message of the error; nothing else of the
  store is touched after the pipeline. \<open>processWalletBatch\<close> counts the wallet as failed,
  notes \<open>address: message\<close>, and goes on with the rest of the batch.
\<close>

theorem getWalletData_failure:
  assumes "pipeline_fails S address w err"
  shows "\<exists>w'. getWalletData S address walletId w = (Inl err, w')
     \<and> find (\<lambda>r. wb_wallet_address r = address) (wallet_balances w')
         = Some \<lparr>wb_wallet_address = address, wb_wallet_id = walletId, wb_sol_balance = 0,
                 wb_tokens = [], wb_last_updated = clock w', wb_fetch_status = ''error'',
                 wb_error_message = Some (error_message err), wb_retry_count = 0\<rparr>
     \<and> fetch_logs w' = fetch_logs (snd (fetch_wallet S address w))
     \<and> token_prices w' = token_prices (snd (fetch_wallet S address w))
     \<and> (\<forall>rest results.
           run_batch S (\<lparr>wl_id = walletId, wl_address = address\<rparr> # rest) results w
             = run_batch S rest
                 (results\<lparr>failed := failed results + 1,
                          errors := errors results @ [address @ '': '' @ error_message err]\<rparr>) w')"
proof -
  obtain r w2 where fw: "fetch_wallet S address w = (r, w2)"
    by (cases "fetch_wallet S address w")
  from assms fw have r: "r = Inl err"
    by (simp add: pipeline_fails_fetch_wallet)
  define w' where "w' = upsertWalletBalance
      \<lparr>wb_wallet_address = address, wb_wallet_id = walletId, wb_sol_balance = 0,
       wb_tokens = [], wb_last_updated = clock w2, wb_fetch_status = ''error'',
       wb_error_message = Some (error_message err), wb_retry_count = 0\<rparr> w2"
  from fw r have a: "getWalletData S address walletId w = (Inl err, w')"
    by (simp add: getWalletData_def w'_def)
  have c: "clock w' = clock w2"
    by (simp add: w'_def upsertWalletBalance_def)
  have b: "find (\<lambda>r. wb_wallet_address r = address) (wallet_balances w')
      = Some \<lparr>wb_wallet_address = address, wb_wallet_id = walletId, wb_sol_balance = 0,
              wb_tokens = [], wb_last_updated = clock w', wb_fetch_status = ''error'',
              wb_error_message = Some (error_message err), wb_retry_count = 0\<rparr>"
    unfolding c by (simp add: w'_def upsertWalletBalance_def find_upsert_wallet)
  have s: "fetch_logs w' = fetch_logs (snd (fetch_wallet S address w))"
      "token_prices w' = token_prices (snd (fetch_wallet S address w))"
    by (simp_all add: w'_def upsertWalletBalance_def fw)
  have d: "\<forall>rest results.
      run_batch S (\<lparr>wl_id = walletId, wl_address = address\<rparr> # rest) results w
        = run_batch S rest
            (results\<lparr>failed := failed results + 1,
                     errors := errors results @ [address @ '': '' @ error_message err]\<rparr>) w'"
    by (simp add: a)
  from a b s d show ?thesis by blast
qed

lemma up_balance:
  "a \<noteq> ''bad'' \<Longrightarrow> \<exists>w1. getSOLBalance service_up a w = (Inr (5 / 2), w1)"
  by (simp add: getSOLBalance_def addToQueue_idle withRetry_def withRetry_loop.simps [of 0]
      getBalance_attempt_def await_def service_up_def respond_def Let_def)

lemma up_tokens:
  "a \<noteq> ''bad'' \<Longrightarrow> \<exists>w1. getTokenAccounts service_up a w = (Inr [m1_account], w1)"
  by (simp add: getTokenAccounts_def addToQueue_idle withRetry_def withRetry_loop.simps [of 0]
      getTokenAccounts_attempt_def getParsedTokenAccounts_def Promise_all2_def await_def
      service_up_def respond_def Let_def m1_account_def)

lemma up_prices_any:
  "\<exists>prices w1. getTokenPrices service_up [''M1''] w = (Inr prices, w1)
     \<and> prices ''M1'' = Some \<lparr>pd_price = 1 / 2, pd_symbol = ''ONE'', pd_name = ''Token One'',
                              pd_change24h = None, pd_marketCap = None\<rparr>"
  by (simp add: getTokenPrices_def Promise_all2_def up_catalogue_any SOL_MINT_def)
    (simp add: fetch_def await_def service_up_def respond_def ok_json_def quotes_def Let_def
      SOL_MINT_def upsertTokenPrice_def m1_json_def metadata_of_def or_else_def or_null_def)

lemma up_metadata_M1:
  "extract_metadata [''M1''] (build_tokenMap [m1_json] Map.empty) Map.empty ''M1''
     = Some \<lparr>md_symbol = ''ONE'', md_name = ''Token One'', md_logoURI = None\<rparr>"
  by (simp add: m1_json_def metadata_of_def or_else_def or_null_def)

lemma up_wallet:
  assumes "a \<noteq> ''bad''"
  shows "\<exists>wd w'. getWalletData service_up a i w = (Inr wd, w')"
proof -
  from up_balance [OF assms] obtain wa where b: "getSOLBalance service_up a w = (Inr (5 / 2), wa)"
    by blast
  from up_tokens [OF assms] obtain wb where t: "getTokenAccounts service_up a wa = (Inr [m1_account], wb)"
    by blast
  from up_prices_any obtain prices w2
    where p: "getTokenPrices service_up [''M1'']
        (wb\<lparr>fetched := fetched wb @ [''tokens''], ext := Suc (ext wb), clock := clock wb + 20\<rparr>)
        = (Inr prices, w2)"
    by blast
  from b t p show ?thesis
    by (simp add: getWalletData_def fetch_wallet_def Promise_all2_def up_catalogue_any
        m1_account_def Let_def)
qed

lemma rejects_bad:
  "\<exists>w'. getWalletData service_up ''bad'' i w = (Inl (Error ''Invalid public key input''), w')"
  by (simp add: getWalletData_def fetch_wallet_def Promise_all2_def getSOLBalance_def
      getTokenAccounts_def service_up_def Let_def)

theorem getWalletData_valuation_witness:
  "\<exists>wd w'. getWalletData service_up ''A'' ''1'' world0 = (Inr wd, w')
     \<and> wd_solBalance wd = 5 / 2
     \<and> map ta_mint (wd_tokens wd) = [''M1'']
     \<and> map ta_symbol (wd_tokens wd) = [Some ''ONE'']
     \<and> map ta_name (wd_tokens wd) = [Some ''Token One'']
     \<and> map ta_usdValue (wd_tokens wd) = [Some 50]
     \<and> wd_totalUsdValue wd = 50"
proof -
  have ok: "''A'' \<noteq> ''bad''" by simp
  from up_wallet [OF ok] obtain wd w'
    where run: "getWalletData service_up ''A'' ''1'' world0 = (Inr wd, w')"
    by blast
  from getWalletData_valuation [OF run]
  obtain solBalance tokenAccounts metadata prices wa wb wc w2
    where b: "getSOLBalance service_up ''A'' world0 = (Inr solBalance, wa)"
      and t: "getTokenAccounts service_up ''A'' wa = (Inr tokenAccounts, wb)"
      and m: "getTokenMetadata service_up (map ta_mint tokenAccounts) wb = (Inr metadata, wc)"
      and p: "getTokenPrices service_up (map ta_mint tokenAccounts) wc = (Inr prices, w2)"
      and sb: "wd_solBalance wd = solBalance"
      and mints: "map ta_mint (wd_tokens wd) = map ta_mint tokenAccounts"
      and amounts: "map ta_amount (wd_tokens wd) = map ta_amount tokenAccounts"
      and each: "\<forall>t\<in>set (wd_tokens wd).
            (\<forall>d. metadata (ta_mint t) = Some d \<longrightarrow>
                  ta_symbol t = Some (md_symbol d) \<and> ta_name t = Some (md_name d))
            \<and> (metadata (ta_mint t) = None \<longrightarrow>
                  ta_symbol t = Some (or_else (map_option pd_symbol (prices (ta_mint t))) ''Unknown'')
                  \<and> ta_name t
                      = Some (or_else (map_option pd_name (prices (ta_mint t))) ''Unknown Token''))
            \<and> ta_usdValue t
                = Some (case prices (ta_mint t) of
                          Some pd \<Rightarrow> ta_amount t * pd_price pd
                        | None \<Rightarrow> 0)"
      and total: "wd_totalUsdValue wd = sum_list (map usd_or_0 (wd_tokens wd))"
    by blast
  from up_balance [OF ok, of world0] b have sol: "solBalance = 5 / 2" by auto
  from up_tokens [OF ok, of wa] t have ta: "tokenAccounts = [m1_account]" by auto
  from m have "metadata = extract_metadata [''M1''] (build_tokenMap [m1_json] Map.empty) Map.empty"
    unfolding ta by (simp add: m1_account_def up_catalogue_any del: extract_metadata.simps
        build_tokenMap.simps)
  then have md: "metadata ''M1''
      = Some \<lparr>md_symbol = ''ONE'', md_name = ''Token One'', md_logoURI = None\<rparr>"
    by (simp only: up_metadata_M1)
  from up_prices_any [of wc] p have pr: "prices ''M1''
      = Some \<lparr>pd_price = 1 / 2, pd_symbol = ''ONE'', pd_name = ''Token One'',
              pd_change24h = None, pd_marketCap = None\<rparr>"
    by (auto simp: ta m1_account_def)
  from mints amounts obtain t0 where one: "wd_tokens wd = [t0]" "ta_mint t0 = ''M1''"
      "ta_amount t0 = 100"
    by (auto simp: ta m1_account_def)
  from each one md pr have vals: "ta_symbol t0 = Some ''ONE''" "ta_name t0 = Some ''Token One''"
      "ta_usdValue t0 = Some 50"
    by simp_all
  from total one vals have "wd_totalUsdValue wd = 50"
    by (simp add: usd_or_0_def)
  with run sb sol one vals show ?thesis by simp
qed

lemma down_balance:
  "\<exists>w1. getSOLBalance service_down a w = (Inl (Error ''fetch failed''), w1)
     \<and> timers w1 = timers w @ [1000, 2000]"
  by (simp add: getSOLBalance_def addToQueue_idle withRetry_def withRetry_loop.simps
      getBalance_attempt_def await_def service_down_def unreachable_def Let_def
      baseDelay_default_def setTimeout_def insertFetchLog_def)

lemma down_wallet:
  "\<exists>w'. getWalletData service_down a i w = (Inl (Error ''fetch failed''), w')"
proof -
  from down_balance obtain wa
    where b: "getSOLBalance service_down a w = (Inl (Error ''fetch failed''), wa)"
    by blast
  obtain r wb where t: "getTokenAccounts service_down a wa = (r, wb)"
    by (cases "getTokenAccounts service_down a wa")
  from b t show ?thesis
    by (simp add: getWalletData_def fetch_wallet_def Promise_all2_def)
qed

text \<open>With both connections out of reach every call uses up its three attempts.\<close>

lemma down_pipeline: "pipeline_fails service_down a w (Error ''fetch failed'')"
proof -
  from down_balance obtain wa
    where b: "getSOLBalance service_down a w = (Inl (Error ''fetch failed''), wa)"
    by blast
  then show ?thesis
    by (simp add: pipeline_fails_def split: prod.splits)
qed

lemma bad_pipeline: "pipeline_fails service_up ''bad'' w (Error ''Invalid public key input'')"
  by (simp add: pipeline_fails_def getSOLBalance_def service_up_def Let_def split: prod.splits)

theorem getWalletData_failure_witness:
  "pipeline_fails service_down ''A'' world0 (Error ''fetch failed'')
   \<and> (\<exists>w'. getWalletData service_down ''A'' ''1'' world0 = (Inl (Error ''fetch failed''), w')
         \<and> find (\<lambda>r. wb_wallet_address r = ''A'') (wallet_balances w')
             = Some \<lparr>wb_wallet_address = ''A'', wb_wallet_id = ''1'', wb_sol_balance = 0,
                     wb_tokens = [], wb_last_updated = clock w', wb_fetch_status = ''error'',
                     wb_error_message = Some ''fetch failed'', wb_retry_count = 0\<rparr>
         \<and> run_batch service_down [\<lparr>wl_id = ''1'', wl_address = ''A''\<rparr>]
              \<lparr>successful = 0, failed = 0, errors = []\<rparr> world0
             = (\<lparr>successful = 0, failed = 1, errors = [''A: fetch failed'']\<rparr>, w'))
   \<and> pipeline_fails service_up ''bad'' world0 (Error ''Invalid public key input'')
   \<and> fst (run_batch service_up [bad_wallet, good_wallet]
              \<lparr>successful = 0, failed = 0, errors = []\<rparr> world0)
       = \<lparr>successful = 1, failed = 1, errors = [''bad: Invalid public key input'']\<rparr>"
proof -
  from getWalletData_failure [OF down_pipeline [of "''A''" world0], of "''1''"]
  obtain w'
    where run: "getWalletData service_down ''A'' ''1'' world0 = (Inl (Error ''fetch failed''), w')"
      and row: "find (\<lambda>r. wb_wallet_address r = ''A'') (wallet_balances w')
         = Some \<lparr>wb_wallet_address = ''A'', wb_wallet_id = ''1'', wb_sol_balance = 0,
                 wb_tokens = [], wb_last_updated = clock w', wb_fetch_status = ''error'',
                 wb_error_message = Some (error_message (Error ''fetch failed'')),
                 wb_retry_count = 0\<rparr>"
      and batch: "\<forall>rest results.
           run_batch service_down (\<lparr>wl_id = ''1'', wl_address = ''A''\<rparr> # rest) results world0
             = run_batch service_down rest
                 (results\<lparr>failed := failed results + 1,
                          errors := errors results
                            @ [''A'' @ '': '' @ error_message (Error ''fetch failed'')]\<rparr>) w'"
    by blast
  from batch [rule_format, of "[]" "\<lparr>successful = 0, failed = 0, errors = []\<rparr>"]
  have one: "run_batch service_down [\<lparr>wl_id = ''1'', wl_address = ''A''\<rparr>]
          \<lparr>successful = 0, failed = 0, errors = []\<rparr> world0
         = (\<lparr>successful = 0, failed = 1, errors = [''A: fetch failed'']\<rparr>, w')"
    by simp
  from run row one
  have down: "\<exists>w'. getWalletData service_down ''A'' ''1'' world0 = (Inl (Error ''fetch failed''), w')
         \<and> find (\<lambda>r. wb_wallet_address r = ''A'') (wallet_balances w')
             = Some \<lparr>wb_wallet_address = ''A'', wb_wallet_id = ''1'', wb_sol_balance = 0,
                     wb_tokens = [], wb_last_updated = clock w', wb_fetch_status = ''error'',
                     wb_error_message = Some ''fetch failed'', wb_retry_count = 0\<rparr>
         \<and> run_batch service_down [\<lparr>wl_id = ''1'', wl_address = ''A''\<rparr>]
              \<lparr>successful = 0, failed = 0, errors = []\<rparr> world0
             = (\<lparr>successful = 0, failed = 1, errors = [''A: fetch failed'']\<rparr>, w')"
    by simp
  from getWalletData_failure [OF bad_pipeline [of world0], of "''b''"]
  obtain w1
    where go_on: "\<forall>rest results.
           run_batch service_up (\<lparr>wl_id = ''b'', wl_address = ''bad''\<rparr> # rest) results world0
             = run_batch service_up rest
                 (results\<lparr>failed := failed results + 1,
                          errors := errors results
                            @ [''bad'' @ '': '' @ error_message (Error ''Invalid public key input'')]\<rparr>)
                 w1"
    by blast
  have "''A'' \<noteq> ''bad''" by simp
  from up_wallet [OF this, of "''g''" w1] obtain wd w2
    where good: "getWalletData service_up ''A'' ''g'' w1 = (Inr wd, w2)"
    by blast
  from go_on [rule_format, of "[good_wallet]" "\<lparr>successful = 0, failed = 0, errors = []\<rparr>"] good
  have two: "fst (run_batch service_up [bad_wallet, good_wallet]
              \<lparr>successful = 0, failed = 0, errors = []\<rparr> world0)
       = \<lparr>successful = 1, failed = 1, errors = [''bad: Invalid public key input'']\<rparr>"
    by (simp add: bad_wallet_def good_wallet_def)
  show ?thesis
    by (intro conjI down_pipeline down bad_pipeline two)
qed
section \<open>The fetch log\<close>














section \<open>Batches of wallets\<close>

lemma slice_chunk:
  assumes "0 \<le> i" and "0 < batchSize"
  shows "slice xs i (i + batchSize) = take (nat batchSize) (drop (nat i) xs)"
proof -
  have "take (nat (min (i + batchSize) (int (length xs)) - min i (int (length xs))))
          (drop (nat (min i (int (length xs)))) xs)
      = take (nat batchSize) (drop (nat i) xs)"
  proof (cases "i \<le> int (length xs)")
    case False
    then show ?thesis using assms by simp
  next
    case True
    then have m: "min i (int (length xs)) = i" by simp
    show ?thesis
    proof (cases "i + batchSize \<le> int (length xs)")
      case True
      then show ?thesis using m by simp
    next
      case False
      then have "min (i + batchSize) (int (length xs)) = int (length xs)" by simp
      moreover have "nat (int (length xs) - i) = length (drop (nat i) xs)"
        using assms True by simp
      moreover have "length (drop (nat i) xs) \<le> nat batchSize"
        using assms False True by simp
      ultimately show ?thesis using m by simp
    qed
  qed
  with assms show ?thesis
    by (simp add: slice_def Let_def)
qed

text \<open>With a step that is not positive the loop never leaves a list that is not exhausted.\<close>

lemma loop_returns_only:
  assumes "processWalletBatch_loop S wallets batchSize i results w = Some y"
  shows "\<not> (batchSize \<le> 0 \<and> i < int (length wallets))"
proof (rule processWalletBatch_loop.raw_induct
    [where P = "\<lambda>S wallets batchSize i results w y. \<not> (batchSize \<le> 0 \<and> i < int (length wallets))",
      OF _ assms])
  fix loop :: "'a service \<Rightarrow> wallet list \<Rightarrow> int \<Rightarrow> int \<Rightarrow> batch_results \<Rightarrow> 'a world
      \<Rightarrow> (batch_results \<times> 'a world) option"
  fix S' :: "'a service" and ws :: "wallet list" and bs j :: int and rs :: batch_results
    and w0 :: "'a world" and y0 :: "batch_results \<times> 'a world"
  assume IH: "\<And>a b c d e f y. loop a b c d e f = Some y \<Longrightarrow> \<not> (c \<le> 0 \<and> d < int (length b))"
  assume eq: "(if j < int (length ws)
      then case run_batch S' (slice ws j (j + bs)) rs w0 of
           (results1, w1) \<Rightarrow>
             loop S' ws bs (j + bs) results1
               (if j + bs < int (length ws) then setTimeout 2000 w1 else w1)
      else Some (rs, w0)) = Some y0"
  show "\<not> (bs \<le> 0 \<and> j < int (length ws))"
  proof
    assume a: "bs \<le> 0 \<and> j < int (length ws)"
    obtain results1 w1 where b: "run_batch S' (slice ws j (j + bs)) rs w0 = (results1, w1)"
      by (cases "run_batch S' (slice ws j (j + bs)) rs w0")
    from eq a b
    have "loop S' ws bs (j + bs) results1
        (if j + bs < int (length ws) then setTimeout 2000 w1 else w1) = Some y0"
      by simp
    from IH [OF this] a show False by simp
  qed
qed

lemma loop_never_returns:
  "batchSize \<le> 0 \<Longrightarrow> wallets \<noteq> [] \<Longrightarrow> processWalletBatch S wallets batchSize w = None"
proof (rule ccontr)
  assume a: "batchSize \<le> 0" "wallets \<noteq> []"
    and "processWalletBatch S wallets batchSize w \<noteq> None"
  then obtain y where "processWalletBatch_loop S wallets batchSize 0
      \<lparr>successful = 0, failed = 0, errors = []\<rparr> w = Some y"
    by (auto simp: processWalletBatch_def)
  from loop_returns_only [OF this] a show False by simp
qed

lemma chunks_Nil [simp]: "chunks n [] = []"
  by (simp add: chunks.simps)

lemma chunks_step: "0 < n \<Longrightarrow> xs \<noteq> [] \<Longrightarrow> chunks n xs = take n xs # chunks n (drop n xs)"
  by (subst chunks.simps) simp

lemma chunks_props:
  "0 < n \<Longrightarrow>
     concat (chunks n xs) = xs
     \<and> (\<forall>c\<in>set (chunks n xs). c \<noteq> [] \<and> length c \<le> n)
     \<and> (\<forall>c\<in>set (butlast (chunks n xs)). length c = n)"
proof (induction "length xs" arbitrary: xs rule: less_induct)
  case less
  show ?case
  proof (cases "xs = []")
    case True
    then show ?thesis by simp
  next
    case False
    with less.prems have step: "chunks n xs = take n xs # chunks n (drop n xs)"
      by (simp add: chunks_step)
    from False less.prems have "length (drop n xs) < length xs" by simp
    from less.hyps [OF this less.prems]
    have ih1: "concat (chunks n (drop n xs)) = drop n xs"
      and ih2: "\<forall>c\<in>set (chunks n (drop n xs)). c \<noteq> [] \<and> length c \<le> n"
      and ih3: "\<forall>c\<in>set (butlast (chunks n (drop n xs))). length c = n"
      by blast+
    have a: "concat (chunks n xs) = xs"
      unfolding step by (simp add: ih1)
    have t: "take n xs \<noteq> []" "length (take n xs) \<le> n"
      using False less.prems by simp_all
    have b: "\<forall>c\<in>set (chunks n xs). c \<noteq> [] \<and> length c \<le> n"
      unfolding step using t ih2 by simp
    have c: "\<forall>c\<in>set (butlast (chunks n xs)). length c = n"
    proof (cases "chunks n (drop n xs) = []")
      case True
      then show ?thesis unfolding step by simp
    next
      case ne: False
      have "drop n xs \<noteq> []"
      proof
        assume "drop n xs = []"
        then have "chunks n (drop n xs) = []" by (simp only: chunks_Nil)
        with ne show False by simp
      qed
      then have "length (take n xs) = n" by simp
      with ih3 ne show ?thesis unfolding step by simp
    qed
    from a b c show ?thesis by blast
  qed
qed

lemma loop_chunks:
  assumes "0 < batchSize"
  shows "0 \<le> i \<Longrightarrow>
     processWalletBatch_loop S wallets batchSize i results w
       = Some (run_chunks S (chunks (nat batchSize) (drop (nat i) wallets)) results w)"
proof (induction "length wallets - nat i" arbitrary: i results w rule: less_induct)
  case less
  show ?case
  proof (cases "i < int (length wallets)")
    case False
    with less.prems have "drop (nat i) wallets = []" by simp
    with False show ?thesis
      by (subst processWalletBatch_loop.simps) simp
  next
    case True
    let ?rest = "drop (nat i) wallets"
    let ?c = "take (nat batchSize) ?rest"
    from True less.prems have ne: "?rest \<noteq> []" by simp
    from assms have n: "0 < nat batchSize" by simp
    have next_drop: "drop (nat batchSize) ?rest = drop (nat (i + batchSize)) wallets"
      using assms less.prems by (simp add: nat_add_distrib add.commute)
    have step: "chunks (nat batchSize) ?rest = ?c # chunks (nat batchSize) (drop (nat (i + batchSize)) wallets)"
      using chunks_step [OF n ne] next_drop by simp
    obtain results1 w1 where b: "run_batch S ?c results w = (results1, w1)"
      by (cases "run_batch S ?c results w")
    let ?w2 = "if i + batchSize < int (length wallets) then setTimeout 2000 w1 else w1"
    have smaller: "length wallets - nat (i + batchSize) < length wallets - nat i"
      using assms less.prems True by simp
    have pos: "0 \<le> i + batchSize"
      using assms less.prems by simp
    from less.hyps [OF smaller pos]
    have ih: "processWalletBatch_loop S wallets batchSize (i + batchSize) results1 ?w2
        = Some (run_chunks S (chunks (nat batchSize) (drop (nat (i + batchSize)) wallets)) results1 ?w2)" .
    have more: "chunks (nat batchSize) (drop (nat (i + batchSize)) wallets) = []
        \<longleftrightarrow> \<not> i + batchSize < int (length wallets)"
    proof (cases "i + batchSize < int (length wallets)")
      case True
      with pos have "drop (nat (i + batchSize)) wallets \<noteq> []" by simp
      from chunks_step [OF n this] True show ?thesis by simp
    next
      case False
      with pos have "drop (nat (i + batchSize)) wallets = []" by simp
      with False show ?thesis by simp
    qed
    have "processWalletBatch_loop S wallets batchSize i results w
        = processWalletBatch_loop S wallets batchSize (i + batchSize) results1 ?w2"
      using True b slice_chunk [OF less.prems assms, of wallets]
      by (subst processWalletBatch_loop.simps) simp
    also note ih
    also have "run_chunks S (chunks (nat batchSize) (drop (nat (i + batchSize)) wallets)) results1 ?w2
        = run_chunks S (chunks (nat batchSize) ?rest) results w"
      using b more by (simp add: step)
    finally show ?thesis .
  qed
qed

lemma run_batch_counts:
  "run_batch S c results w = (r, w') \<Longrightarrow>
     successful r + failed r = successful results + failed results + length c
     \<and> (\<exists>new. errors r = errors results @ new
           \<and> length new + failed results = failed r
           \<and> (\<forall>e\<in>set new. error_entry_of c e))"
proof (induction c arbitrary: results w)
  case Nil
  then show ?case by auto
next
  case (Cons wallet rest)
  obtain g w1 where g: "getWalletData S (wl_address wallet) (wl_id wallet) w = (g, w1)"
    by (cases "getWalletData S (wl_address wallet) (wl_id wallet) w")
  have mono: "error_entry_of rest e \<Longrightarrow> error_entry_of (wallet # rest) e" for e
    by (auto simp: error_entry_of_def)
  show ?case
  proof (cases g)
    case (Inr walletData)
    with Cons.prems g
    have "run_batch S rest (results\<lparr>successful := successful results + 1\<rparr>) w1 = (r, w')"
      by simp
    from Cons.IH [OF this] mono show ?thesis by auto
  next
    case (Inl err)
    let ?e = "wl_address wallet @ '': '' @ error_message err"
    from Inl Cons.prems g
    have "run_batch S rest
        (results\<lparr>failed := failed results + 1, errors := errors results @ [?e]\<rparr>) w1 = (r, w')"
      by simp
    from Cons.IH [OF this] obtain new where
      n: "successful r + failed r = successful results + (failed results + 1) + length rest"
        "errors r = (errors results @ [?e]) @ new"
        "length new + (failed results + 1) = failed r"
        "\<forall>e\<in>set new. error_entry_of rest e"
      by auto
    have "error_entry_of (wallet # rest) ?e"
      by (auto simp: error_entry_of_def)
    with n mono have "errors r = errors results @ (?e # new)
        \<and> length (?e # new) + failed results = failed r
        \<and> (\<forall>e\<in>set (?e # new). error_entry_of (wallet # rest) e)"
      by auto
    with n(1) show ?thesis by (intro conjI exI [of _ "?e # new"]) simp_all
  qed
qed

lemma run_chunks_counts:
  "run_chunks S cs results w = (r, w') \<Longrightarrow>
     successful r + failed r = successful results + failed results + length (concat cs)
     \<and> (\<exists>new. errors r = errors results @ new
           \<and> length new + failed results = failed r
           \<and> (\<forall>e\<in>set new. error_entry_of (concat cs) e))"
proof (induction cs arbitrary: results w)
  case Nil
  then show ?case by auto
next
  case (Cons c rest)
  obtain r1 w1 where b: "run_batch S c results w = (r1, w1)"
    by (cases "run_batch S c results w")
  let ?w2 = "if rest = [] then w1 else setTimeout 2000 w1"
  from Cons.prems b have run: "run_chunks S rest r1 ?w2 = (r, w')" by simp
  from run_batch_counts [OF b] obtain new1 where
    n1: "successful r1 + failed r1 = successful results + failed results + length c"
      "errors r1 = errors results @ new1" "length new1 + failed results = failed r1"
      "\<forall>e\<in>set new1. error_entry_of c e"
    by auto
  from Cons.IH [OF run] obtain new2 where
    n2: "successful r + failed r = successful r1 + failed r1 + length (concat rest)"
      "errors r = errors r1 @ new2" "length new2 + failed r1 = failed r"
      "\<forall>e\<in>set new2. error_entry_of (concat rest) e"
    by auto
  have mono1: "error_entry_of c e \<Longrightarrow> error_entry_of (concat (c # rest)) e" for e
    by (auto simp: error_entry_of_def)
  have mono2: "error_entry_of (concat rest) e \<Longrightarrow> error_entry_of (concat (c # rest)) e" for e
    by (auto simp: error_entry_of_def)
  from n1 n2 mono1 mono2
  have "errors r = errors results @ (new1 @ new2)
      \<and> length (new1 @ new2) + failed results = failed r
      \<and> (\<forall>e\<in>set (new1 @ new2). error_entry_of (concat (c # rest)) e)"
    by auto
  moreover from n1(1) n2(1)
  have "successful r + failed r = successful results + failed results + length (concat (c # rest))"
    by simp
  ultimately show ?case by blast
qed

text \<open>
  Claim C3, as stated, fails for a batch size of 0: with one wallet the loop runs the empty
  chunk for ever, and no counts are returned.
\<close>

theorem processWalletBatch_zero_counterexample:
  "processWalletBatch service_up [good_wallet] 0 world0 = None"
  by (rule loop_never_returns) simp_all

text \<open>
  Claim C3, amended. For every list of wallets and every batch size of at least 1,
  \<open>processWalletBatch\<close> returns. The wallets are taken in consecutive chunks of \<open>batchSize\<close>
  (the last chunk may be shorter), one chunk after the other, every wallet of a chunk to its
  end; the counts it returns add up to the number of wallets, and the error list has one entry
  \<open>address: message\<close> for every failed wallet. A failure stops neither the chunk nor the
  chunks after it.
\<close>

theorem processWalletBatch_counts:
  assumes "0 < batchSize"
  shows "\<exists>r w'. processWalletBatch S wallets batchSize w = Some (r, w')
     \<and> (r, w') = run_chunks S (chunks (nat batchSize) wallets)
                    \<lparr>successful = 0, failed = 0, errors = []\<rparr> w
     \<and> concat (chunks (nat batchSize) wallets) = wallets
     \<and> (\<forall>c\<in>set (chunks (nat batchSize) wallets). c \<noteq> [] \<and> length c \<le> nat batchSize)
     \<and> (\<forall>c\<in>set (butlast (chunks (nat batchSize) wallets)). length c = nat batchSize)
     \<and> successful r + failed r = length wallets
     \<and> length (errors r) = failed r
     \<and> (\<forall>e\<in>set (errors r). error_entry_of wallets e)"
proof -
  let ?cs = "chunks (nat batchSize) wallets"
  let ?r0 = "\<lparr>successful = 0, failed = 0, errors = []\<rparr>"
  obtain r w' where run: "run_chunks S ?cs ?r0 w = (r, w')"
    by (cases "run_chunks S ?cs ?r0 w")
  from loop_chunks [OF assms, of 0 S wallets ?r0 w] run
  have ret: "processWalletBatch S wallets batchSize w = Some (r, w')"
    by (simp add: processWalletBatch_def)
  from assms have n: "0 < nat batchSize" by simp
  note props = chunks_props [OF n, of wallets]
  from run_chunks_counts [OF run] props
  have counts: "successful r + failed r = length wallets" "length (errors r) = failed r"
      "\<forall>e\<in>set (errors r). error_entry_of wallets e"
    by auto
  from ret run props counts show ?thesis by simp
qed

lemma run_batch_up: "\<exists>w'. run_batch service_up c r w = (foldl tally r c, w')"
proof (induction c arbitrary: r w)
  case Nil
  show ?case by simp
next
  case (Cons wl rest)
  show ?case
  proof (cases "wl_address wl = ''bad''")
    case True
    from rejects_bad [of "wl_id wl" w] obtain w1
      where "getWalletData service_up ''bad'' (wl_id wl) w
          = (Inl (Error ''Invalid public key input''), w1)"
      by blast
    with True Cons [of _ w1] show ?thesis
      by (simp add: tally_def)
  next
    case False
    from up_wallet [OF False, of "wl_id wl" w] obtain wd w1
      where "getWalletData service_up (wl_address wl) (wl_id wl) w = (Inr wd, w1)"
      by blast
    with False Cons [of _ w1] show ?thesis
      by (simp add: tally_def)
  qed
qed

lemma run_chunks_up: "\<exists>w'. run_chunks service_up cs r w = (foldl (foldl tally) r cs, w')"
proof (induction cs arbitrary: r w)
  case Nil
  show ?case by simp
next
  case (Cons c rest)
  from run_batch_up [of c r w] obtain w1 where "run_batch service_up c r w = (foldl tally r c, w1)"
    by blast
  with Cons [of "foldl tally r c" "if rest = [] then w1 else setTimeout 2000 w1"] show ?case
    by simp
qed

lemma chunks_twelve:
  "chunks (nat batchSize_default) twelve
     = [[good_wallet, good_wallet, good_wallet, good_wallet, good_wallet],
        [good_wallet, good_wallet, good_wallet, good_wallet, good_wallet],
        [good_wallet, bad_wallet]]"
  by (simp add: batchSize_default_def twelve_def chunks.simps [of 5])

theorem processWalletBatch_counts_witness:
  "0 < batchSize_default
   \<and> map length (chunks (nat batchSize_default) twelve) = [5, 5, 2]
   \<and> (\<exists>w'. processWalletBatch service_up twelve batchSize_default world0
         = Some (\<lparr>successful = 11, failed = 1, errors = [''bad: Invalid public key input'']\<rparr>, w'))"
proof -
  have pos: "0 < batchSize_default" by (simp add: batchSize_default_def)
  from processWalletBatch_counts [OF pos, of service_up twelve world0]
  obtain r w' where ret: "processWalletBatch service_up twelve batchSize_default world0 = Some (r, w')"
    and run: "(r, w') = run_chunks service_up (chunks (nat batchSize_default) twelve)
        \<lparr>successful = 0, failed = 0, errors = []\<rparr> world0"
    by blast
  from run_chunks_up [of "chunks (nat batchSize_default) twelve"
      "\<lparr>successful = 0, failed = 0, errors = []\<rparr>" world0] run
  have "r = foldl (foldl tally) \<lparr>successful = 0, failed = 0, errors = []\<rparr>
      (chunks (nat batchSize_default) twelve)"
    by auto
  then have "r = \<lparr>successful = 11, failed = 1, errors = [''bad: Invalid public key input'']\<rparr>"
    by (simp add: chunks_twelve tally_def good_wallet_def bad_wallet_def)
  with ret have "\<exists>w'. processWalletBatch service_up twelve batchSize_default world0
         = Some (\<lparr>successful = 11, failed = 1, errors = [''bad: Invalid public key input'']\<rparr>, w')"
    by simp
  moreover have "map length (chunks (nat batchSize_default) twelve) = [5, 5, 2]"
    by (simp add: chunks_twelve)
  ultimately show ?thesis using pos by simp
qed

section \<open>The request queue\<close>

lemma queue_inv_idle: "queue_inv (idle_queue w)"
  by (simp add: queue_inv_def idle_queue_def)

lemma running_cases:
  assumes "running_ok q (running q)"
  obtains (idle) "running q = []"
  | (op) ticket operation where "running q = [AwaitOperation ticket operation]"
  | (delay) "running q = [AwaitDelay]"
proof (cases "running q")
  case Nil
  then show ?thesis by (rule idle)
next
  case (Cons s rest)
  show ?thesis
  proof (cases rest)
    case Nil
    show ?thesis
    proof (cases s)
      case (AwaitOperation ticket operation)
      with Cons Nil show ?thesis by (auto intro: op)
    next
      case AwaitDelay
      with Cons Nil show ?thesis by (auto intro: delay)
    qed
  next
    case (Cons s' rest')
    with assms \<open>running q = s # rest\<close> show ?thesis by simp
  qed
qed

lemma tickets_bound:
  assumes "started q @ map fst (requestQueue q) = [0..<length (submitted q)]"
  shows "\<forall>t\<in>set (started q). t < length (submitted q)"
    and "\<forall>x\<in>set (requestQueue q). fst x < length (submitted q)"
proof -
  have "set (started q) \<union> fst ` set (requestQueue q) = set [0..<length (submitted q)]"
    by (metis assms set_append set_map)
  then have sub: "set (started q) \<subseteq> {0..<length (submitted q)}"
      "fst ` set (requestQueue q) \<subseteq> {0..<length (submitted q)}"
    by auto
  from sub(1) show "\<forall>t\<in>set (started q). t < length (submitted q)"
    by auto
  from sub(2) show "\<forall>x\<in>set (requestQueue q). fst x < length (submitted q)"
    by (metis atLeastLessThan_iff imageI subsetD)
qed

lemma queue_inv_submit:
  assumes "queue_inv q"
  shows "queue_inv (submit operation q)"
proof -
  from assms have fifo: "started q @ map fst (requestQueue q) = [0..<length (submitted q)]"
    and wrap: "\<forall>x\<in>set (requestQueue q). snd x = submitted q ! fst x"
    and ok: "running_ok q (running q)"
    by (simp_all add: queue_inv_def)
  note bound = tickets_bound [OF fifo]
  let ?n = "length (submitted q)"
  from ok show ?thesis
  proof (cases rule: running_cases)
    case idle
    with ok have i: "\<not> isProcessingQueue q" "requestQueue q = []" "map fst (settled q) = started q"
      by simp_all
    with fifo have s: "started q = [0..<?n]" by simp
    from idle i s show ?thesis
      by (simp add: queue_inv_def submit_def processQueue_def loop_head_def Let_def)
  next
    case (op ticket operation')
    with ok have i: "isProcessingQueue q" "started q \<noteq> []" "last (started q) = ticket"
        "operation' = submitted q ! ticket" "map fst (settled q) = butlast (started q)"
      by simp_all
    from i(2,3) bound(1) have "ticket < ?n"
      by (metis last_in_set)
    with op i fifo wrap bound(2) show ?thesis
      by (auto simp: queue_inv_def submit_def Let_def nth_append)
  next
    case delay
    with ok have i: "isProcessingQueue q" "requestQueue q \<noteq> []" "map fst (settled q) = started q"
      by simp_all
    with delay fifo wrap bound(2) show ?thesis
      by (auto simp: queue_inv_def submit_def Let_def nth_append)
  qed
qed

lemma queue_inv_settle:
  assumes "queue_inv q"
  shows "queue_inv (settle d k q)"
proof (cases "k < length (running q)")
  case False
  with assms show ?thesis by (simp add: settle_def)
next
  case True
  from assms have fifo: "started q @ map fst (requestQueue q) = [0..<length (submitted q)]"
    and wrap: "\<forall>x\<in>set (requestQueue q). snd x = submitted q ! fst x"
    and ok: "running_ok q (running q)"
    by (simp_all add: queue_inv_def)
  from ok show ?thesis
  proof (cases rule: running_cases)
    case idle
    with True show ?thesis by simp
  next
    case (op ticket operation)
    with True have k: "k = 0" by simp
    from op ok have i: "isProcessingQueue q" "started q \<noteq> []" "last (started q) = ticket"
        "operation = submitted q ! ticket" "map fst (settled q) = butlast (started q)"
      by simp_all
    from i(2,3) have sn: "butlast (started q) @ [ticket] = started q"
      by (metis append_butlast_last_id)
    obtain r w1 where run: "operation (world_of q) = (r, w1)"
      by (cases "operation (world_of q)")
    show ?thesis
    proof (cases "requestQueue q")
      case Nil
      with op k run i sn fifo show ?thesis
        by (simp add: queue_inv_def settle_def resume_def loop_head_def Let_def)
    next
      case (Cons x rest)
      with op k run i sn fifo wrap show ?thesis
        by (simp add: queue_inv_def settle_def Let_def)
    qed
  next
    case delay
    with True have k: "k = 0" by simp
    from delay ok have i: "isProcessingQueue q" "requestQueue q \<noteq> []"
        "map fst (settled q) = started q"
      by simp_all
    then obtain t operation rest where rq: "requestQueue q = (t, operation) # rest"
      by (cases "requestQueue q") auto
    with delay k i fifo wrap show ?thesis
      by (simp add: queue_inv_def settle_def resume_def loop_head_def Let_def)
  qed
qed

lemma queue_inv_step: "queue_inv q \<Longrightarrow> queue_inv (step d q e)"
  by (cases e) (simp_all add: queue_inv_submit queue_inv_settle)

lemma queue_inv_run: "queue_inv q \<Longrightarrow> queue_inv (run d events q)"
  unfolding run_def by (induction events arbitrary: q) (simp_all add: queue_inv_step)

lemma inv_in_flight: "queue_inv q \<Longrightarrow> length (filter is_operation (running q)) \<le> 1"
proof -
  assume "queue_inv q"
  then have "running_ok q (running q)" by (simp add: queue_inv_def)
  then show ?thesis by (cases rule: running_cases) simp_all
qed

lemma prefix_upt:
  assumes "xs @ ys = [0..<n]"
  shows "xs = [0..<length xs]" and "length xs \<le> n"
proof -
  from assms have "length xs + length ys = n"
    by (metis length_append length_upt minus_nat.diff_0)
  then show le: "length xs \<le> n" by simp
  from assms have "xs = take (length xs) [0..<n]"
    by (metis append_eq_conv_conj)
  with le show "xs = [0..<length xs]" by (simp add: take_upt)
qed

lemma butlast_upt0: "butlast [0..<k] = [0..<k - 1]"
  by (cases k) simp_all

lemma inv_fifo:
  assumes "queue_inv q"
  shows "started q = [0..<length (started q)]"
    and "map fst (settled q) = [0..<length (settled q)]"
    and "length (settled q) \<le> length (started q)"
    and "length (started q) \<le> length (submitted q)"
proof -
  from assms have fifo: "started q @ map fst (requestQueue q) = [0..<length (submitted q)]"
    and ok: "running_ok q (running q)"
    by (simp_all add: queue_inv_def)
  from prefix_upt [OF fifo]
  show s: "started q = [0..<length (started q)]"
    and "length (started q) \<le> length (submitted q)"
    by simp_all
  have "map fst (settled q) = started q \<or> map fst (settled q) = butlast (started q)"
    using ok by (rule running_cases) (use ok in simp_all)
  then have m: "map fst (settled q) = [0..<length (settled q)]
      \<and> length (settled q) \<le> length (started q)"
  proof
    assume a: "map fst (settled q) = started q"
    then have "length (settled q) = length (started q)" by (metis length_map)
    with a s show ?thesis by simp
  next
    assume a: "map fst (settled q) = butlast (started q)"
    then have l: "length (settled q) = length (started q) - 1"
      by (metis length_butlast length_map)
    from s have "butlast (started q) = [0..<length (started q) - 1]"
      by (metis butlast_upt0)
    with a l show ?thesis by simp
  qed
  then show "map fst (settled q) = [0..<length (settled q)]"
    and "length (settled q) \<le> length (started q)"
    by simp_all
qed

lemma inv_settle_own:
  assumes "queue_inv q" and "k < length (running q)"
    and "running q ! k = AwaitOperation t operation"
  shows "t < length (submitted q) \<and> operation = submitted q ! t
     \<and> settled (settle d k q) = settled q @ [(t, fst (operation (world_of q)))]
     \<and> world_of (settle d k q) = snd (operation (world_of q))"
proof -
  from assms(1) have fifo: "started q @ map fst (requestQueue q) = [0..<length (submitted q)]"
    and ok: "running_ok q (running q)"
    by (simp_all add: queue_inv_def)
  from ok show ?thesis
  proof (cases rule: running_cases)
    case idle
    with assms(2) show ?thesis by simp
  next
    case delay
    with assms(2,3) show ?thesis by simp
  next
    case (op ticket operation')
    with assms(2,3) have k: "k = 0" "ticket = t" "operation' = operation" by simp_all
    from op ok k have i: "started q \<noteq> []" "last (started q) = t" "operation = submitted q ! t"
      by simp_all
    from i(1,2) tickets_bound(1) [OF fifo] have "t < length (submitted q)"
      by (metis last_in_set)
    moreover obtain r w1 where "operation (world_of q) = (r, w1)"
      by (cases "operation (world_of q)")
    ultimately show ?thesis using op k i(3)
      by (cases "requestQueue q")
        (simp_all add: settle_def resume_def loop_head_def Let_def)
  qed
qed

lemma steps_bound: "queue_inv q \<Longrightarrow> steps_left q \<le> 2 * length (submitted q)"
proof -
  assume inv: "queue_inv q"
  then have fifo: "started q @ map fst (requestQueue q) = [0..<length (submitted q)]"
    and ok: "running_ok q (running q)"
    by (simp_all add: queue_inv_def)
  from fifo have len: "length (started q) + length (requestQueue q) = length (submitted q)"
    by (metis length_append length_map length_upt minus_nat.diff_0)
  from ok show ?thesis
  proof (cases rule: running_cases)
    case idle
    then show ?thesis by simp
  next
    case (op ticket operation)
    with ok have "started q \<noteq> []" by simp
    then have "0 < length (started q)" by simp
    with len have "2 * length (requestQueue q) + 1 \<le> 2 * length (submitted q)" by linarith
    with op show ?thesis by simp
  next
    case delay
    with len show ?thesis by simp
  qed
qed

text \<open>Settling the one invocation again and again drains the queue.\<close>

lemma drain:
  "queue_inv q \<Longrightarrow> \<forall>operation\<in>set (submitted q). timer_free operation \<or> \<not> quiet \<Longrightarrow>
     steps_left q \<le> n \<Longrightarrow>
     running (run d (replicate n (Settle 0)) q) = []
     \<and> submitted (run d (replicate n (Settle 0)) q) = submitted q
     \<and> (quiet \<longrightarrow> timers (world_of (run d (replicate n (Settle 0)) q))
            = timers (world_of q) @ replicate (length (requestQueue q)) d)"
proof (induction n arbitrary: q)
  case 0
  from "0.prems"(1) have ok: "running_ok q (running q)" by (simp add: queue_inv_def)
  show ?case
    using ok by (rule running_cases) (use ok "0.prems"(3) in \<open>simp_all add: run_def\<close>)
next
  case (Suc n)
  from Suc.prems(1) have fifo: "started q @ map fst (requestQueue q) = [0..<length (submitted q)]"
    and wrap: "\<forall>x\<in>set (requestQueue q). snd x = submitted q ! fst x"
    and ok: "running_ok q (running q)"
    by (simp_all add: queue_inv_def)
  let ?q1 = "settle d 0 q"
  have inv1: "queue_inv ?q1" by (rule queue_inv_settle [OF Suc.prems(1)])
  have unfold: "run d (replicate (Suc n) (Settle 0)) q = run d (replicate n (Settle 0)) ?q1"
    by (simp add: run_def)
  from ok show ?case
  proof (cases rule: running_cases)
    case idle
    then have same: "?q1 = q" by (simp add: settle_def)
    from idle have "steps_left q \<le> n" by simp
    from Suc.IH [OF Suc.prems(1,2) this] show ?thesis
      unfolding unfold same .
  next
    case (op ticket operation)
    from inv_settle_own [OF Suc.prems(1), of 0 ticket operation d] op
    have own: "ticket < length (submitted q)" "operation = submitted q ! ticket"
        "world_of ?q1 = snd (operation (world_of q))"
      by simp_all
    obtain r w1 where run: "operation (world_of q) = (r, w1)"
      by (cases "operation (world_of q)")
    from own(1,2) have mem: "operation \<in> set (submitted q)" by simp
    have sub1: "submitted ?q1 = submitted q" and rq1: "requestQueue ?q1 = requestQueue q"
      and st1: "steps_left ?q1 = 2 * length (requestQueue q)"
      using op run
      by (cases "requestQueue q";
          simp add: settle_def resume_def loop_head_def Let_def)+
    from Suc.prems(3) op st1 have le: "steps_left ?q1 \<le> n" by simp
    from Suc.prems(2) sub1 have tf: "\<forall>operation\<in>set (submitted ?q1). timer_free operation \<or> \<not> quiet"
      by simp
    have tw: "quiet \<longrightarrow> timers (world_of ?q1) = timers (world_of q)"
      using Suc.prems(2) mem own(3) by (auto simp: timer_free_def)
    from Suc.IH [OF inv1 tf le] sub1 rq1 tw show ?thesis
      unfolding unfold by simp
  next
    case delay
    with ok obtain t operation rest where rq: "requestQueue q = (t, operation) # rest"
      by (cases "requestQueue q") auto
    have sub1: "submitted ?q1 = submitted q" and rq1: "requestQueue ?q1 = rest"
      and st1: "steps_left ?q1 = 2 * length rest + 1"
      and w1: "world_of ?q1 = setTimeout d (world_of q)"
      using delay rq by (simp_all add: settle_def resume_def loop_head_def Let_def)
    from Suc.prems(3) delay rq st1 have le: "steps_left ?q1 \<le> n" by simp
    from Suc.prems(2) sub1 have tf: "\<forall>operation\<in>set (submitted ?q1). timer_free operation \<or> \<not> quiet"
      by simp
    from Suc.IH [OF inv1 tf le] sub1 rq1 w1 rq show ?thesis
      unfolding unfold by (simp add: setTimeout_def replicate_append_same)
  qed
qed

lemma run_append: "run d (xs @ ys) q = run d ys (run d xs q)"
  by (simp add: run_def)

text \<open>Operations submitted in a burst: the first is in flight, the others wait.\<close>

lemma burst_state:
  "ops \<noteq> [] \<Longrightarrow>
     (\<exists>t operation. running (run d (map Submit ops) (idle_queue w)) = [AwaitOperation t operation])
     \<and> world_of (run d (map Submit ops) (idle_queue w)) = w
     \<and> submitted (run d (map Submit ops) (idle_queue w)) = ops
     \<and> length (requestQueue (run d (map Submit ops) (idle_queue w))) = length ops - 1"
proof (induction ops rule: rev_induct)
  case Nil
  then show ?case by simp
next
  case (snoc operation ops)
  show ?case
  proof (cases "ops = []")
    case True
    then show ?thesis
      by (simp add: run_def submit_def processQueue_def loop_head_def idle_queue_def Let_def)
  next
    case False
    let ?q = "run d (map Submit ops) (idle_queue w)"
    from snoc.IH [OF False] obtain t operation' where
      r: "running ?q = [AwaitOperation t operation']" and w: "world_of ?q = w"
      and s: "submitted ?q = ops" and l: "length (requestQueue ?q) = length ops - 1"
      by blast
    have "queue_inv ?q" by (rule queue_inv_run [OF queue_inv_idle])
    with r have p: "isProcessingQueue ?q" by (simp add: queue_inv_def)
    have "run d (map Submit (ops @ [operation])) (idle_queue w) = submit operation ?q"
      by (simp add: run_append) (simp add: run_def)
    with r w s l p False show ?thesis
      by (simp add: submit_def Let_def)
  qed
qed

lemma drained:
  assumes q0: "queue_inv q0" and n: "2 * length (submitted q0) \<le> n"
    and q': "q' = run d (replicate n (Settle 0)) q0"
  shows "running q' = [] \<and> requestQueue q' = [] \<and> \<not> isProcessingQueue q'
      \<and> map fst (settled q') = [0..<length (submitted q0)]"
proof -
  from steps_bound [OF q0] n have le: "steps_left q0 \<le> n" by simp
  from drain [OF q0 _ le, of False d] q'
  have r: "running q' = []" and s: "submitted q' = submitted q0"
    by simp_all
  have inv': "queue_inv q'" unfolding q' by (rule queue_inv_run [OF q0])
  with r have i: "\<not> isProcessingQueue q'" "requestQueue q' = []"
      "map fst (settled q') = started q'"
    by (simp_all add: queue_inv_def)
  from inv' i(2) have "started q' = [0..<length (submitted q')]"
    by (simp add: queue_inv_def)
  with r i s show ?thesis by simp
qed

text \<open>An operation submitted to a drained queue is called at once.\<close>

lemma submit_idle:
  assumes "queue_inv q" and "running q = []"
  shows "running (submit operation q) = [AwaitOperation (length (submitted q)) operation]
     \<and> world_of (submit operation q) = world_of q"
proof -
  from assms have "\<not> isProcessingQueue q" "requestQueue q = []"
    by (simp_all add: queue_inv_def)
  with assms(2) show ?thesis
    by (simp add: submit_def processQueue_def loop_head_def Let_def)
qed

text \<open>
  Claim C2. The queue is to run the operations one at a time, in the order they were submitted,
  with the configured delay between two consecutive executions, so that \<open>N\<close> operations
  take at least \<open>N - 1\<close> delays; the field \<open>rateLimitDelay\<close> is commented
  \<open>100ms between requests\<close>. The code does not keep the delay when the second operation is
  submitted after the first has finished: with a delay of 100 ms both operations run, in
  order, and no delay at all is awaited between them.
\<close>

theorem queue_delay_skipped:
  "map fst (settled (run 100 [Submit (resolves 1), Settle 0, Submit (resolves 2), Settle 0]
                       (idle_queue world0))) = [0, 1]
   \<and> timers (world_of (run 100 [Submit (resolves 1), Settle 0, Submit (resolves 2), Settle 0]
                          (idle_queue world0))) = []"
  by (simp add: run_def submit_def processQueue_def loop_head_def settle_def resume_def
      idle_queue_def Let_def resolves_def world0_def)

text \<open>
  What the queue does keep, whatever is submitted and whenever: at most one operation is in
  flight; operations are started in the order they were submitted and their promises settle
  in that order; the promise of a caller is resolved or rejected with the outcome of the
  caller's own operation; and a failed operation does not stop the queue, for settling the
  running invocation often enough empties the queue with every promise settled. The guard
  \<open>if (this.requestQueue.length > 0)\<close> lets the delay be awaited only when another operation
  is waiting at the moment one finishes: operations submitted while the first of them is
  still in flight are separated by one delay each, and an operation submitted to a queue
  that is not running is started by \<open>addToQueue\<close> itself, with no look at the time of the
  last execution.
\<close>

theorem queue_fifo:
  "length (filter is_operation (running (run d events (idle_queue w)))) \<le> 1
   \<and> started (run d events (idle_queue w)) = [0..<length (started (run d events (idle_queue w)))]
   \<and> map fst (settled (run d events (idle_queue w)))
       = [0..<length (settled (run d events (idle_queue w)))]
   \<and> length (settled (run d events (idle_queue w))) \<le> length (started (run d events (idle_queue w)))
   \<and> length (started (run d events (idle_queue w))) \<le> length (submitted (run d events (idle_queue w)))
   \<and> (\<forall>k t operation.
         k < length (running (run d events (idle_queue w)))
         \<and> running (run d events (idle_queue w)) ! k = AwaitOperation t operation \<longrightarrow>
           t < length (submitted (run d events (idle_queue w)))
           \<and> operation = submitted (run d events (idle_queue w)) ! t
           \<and> settled (step d (run d events (idle_queue w)) (Settle k))
               = settled (run d events (idle_queue w))
                 @ [(t, fst (operation (world_of (run d events (idle_queue w)))))])
   \<and> (\<forall>n. 2 * length (submitted (run d events (idle_queue w))) \<le> n \<longrightarrow>
         running (run d (events @ replicate n (Settle 0)) (idle_queue w)) = []
         \<and> requestQueue (run d (events @ replicate n (Settle 0)) (idle_queue w)) = []
         \<and> \<not> isProcessingQueue (run d (events @ replicate n (Settle 0)) (idle_queue w))
         \<and> map fst (settled (run d (events @ replicate n (Settle 0)) (idle_queue w)))
             = [0..<length (submitted (run d events (idle_queue w)))])
   \<and> (running (run d events (idle_queue w)) = [] \<longrightarrow>
         (\<forall>operation.
            running (step d (run d events (idle_queue w)) (Submit operation))
              = [AwaitOperation (length (submitted (run d events (idle_queue w)))) operation]
            \<and> world_of (step d (run d events (idle_queue w)) (Submit operation))
                = world_of (run d events (idle_queue w))))
   \<and> ((\<forall>operation\<in>set ops. timer_free operation) \<longrightarrow>
         timers (world_of (run d (map Submit ops @ replicate (2 * length ops) (Settle 0))
                             (idle_queue w)))
           = timers w @ replicate (length ops - 1) d
         \<and> map fst (settled (run d (map Submit ops @ replicate (2 * length ops) (Settle 0))
                                (idle_queue w)))
             = [0..<length ops])"
proof -
  let ?q = "run d events (idle_queue w)"
  have inv: "queue_inv ?q" by (rule queue_inv_run [OF queue_inv_idle])
  note fifo = inv_fifo [OF inv]
  have own: "\<forall>k t operation.
      k < length (running ?q) \<and> running ?q ! k = AwaitOperation t operation \<longrightarrow>
        t < length (submitted ?q) \<and> operation = submitted ?q ! t
        \<and> settled (step d ?q (Settle k)) = settled ?q @ [(t, fst (operation (world_of ?q)))]"
    using inv_settle_own [OF inv] by auto
  have d1: "\<forall>n. 2 * length (submitted ?q) \<le> n \<longrightarrow>
      running (run d (events @ replicate n (Settle 0)) (idle_queue w)) = []
      \<and> requestQueue (run d (events @ replicate n (Settle 0)) (idle_queue w)) = []
      \<and> \<not> isProcessingQueue (run d (events @ replicate n (Settle 0)) (idle_queue w))
      \<and> map fst (settled (run d (events @ replicate n (Settle 0)) (idle_queue w)))
          = [0..<length (submitted ?q)]"
    using drained [OF inv _ refl] by (simp add: run_append)
  have burst: "(\<forall>operation\<in>set ops. timer_free operation) \<longrightarrow>
      timers (world_of (run d (map Submit ops @ replicate (2 * length ops) (Settle 0))
                          (idle_queue w)))
        = timers w @ replicate (length ops - 1) d
      \<and> map fst (settled (run d (map Submit ops @ replicate (2 * length ops) (Settle 0))
                             (idle_queue w)))
          = [0..<length ops]"
  proof
    assume tf: "\<forall>operation\<in>set ops. timer_free operation"
    let ?b = "run d (map Submit ops) (idle_queue w)"
    let ?e = "run d (replicate (2 * length ops) (Settle 0)) ?b"
    have invb: "queue_inv ?b" by (rule queue_inv_run [OF queue_inv_idle])
    show "timers (world_of (run d (map Submit ops @ replicate (2 * length ops) (Settle 0))
                          (idle_queue w)))
        = timers w @ replicate (length ops - 1) d
      \<and> map fst (settled (run d (map Submit ops @ replicate (2 * length ops) (Settle 0))
                             (idle_queue w)))
          = [0..<length ops]"
    proof (cases "ops = []")
      case True
      then show ?thesis by (simp add: run_def idle_queue_def)
    next
      case False
      from burst_state [OF False, of d w]
      have w: "world_of ?b = w" and s: "submitted ?b = ops"
        and l: "length (requestQueue ?b) = length ops - 1"
        by simp_all
      from steps_bound [OF invb] s have le: "steps_left ?b \<le> 2 * length ops" by simp
      from tf s have tf': "\<forall>operation\<in>set (submitted ?b). timer_free operation \<or> \<not> True"
        by simp
      from drain [OF invb tf' le, of d] w l
      have t: "timers (world_of ?e) = timers w @ replicate (length ops - 1) d"
        by simp
      from drained [OF invb _ refl, of "2 * length ops" d] s
      have "map fst (settled ?e) = [0..<length ops]" by simp
      with t show ?thesis by (simp add: run_append)
    qed
  qed
  have at_once: "running ?q = [] \<longrightarrow>
      (\<forall>operation.
         running (step d ?q (Submit operation))
           = [AwaitOperation (length (submitted ?q)) operation]
         \<and> world_of (step d ?q (Submit operation)) = world_of ?q)"
    using submit_idle [OF inv] by simp
  from inv_in_flight [OF inv] fifo own d1 at_once burst show ?thesis
    by (intro conjI) assumption+
qed

lemma two_submitted:
  "running (run 100 [Submit (resolves 7), Submit rejects] (idle_queue world0))
     = [AwaitOperation 0 (resolves 7)]"
  "submitted (run 100 [Submit (resolves 7), Submit rejects] (idle_queue world0))
     = [resolves 7, rejects]"
  "settled (run 100 [Submit (resolves 7), Submit rejects] (idle_queue world0)) = []"
  "world_of (run 100 [Submit (resolves 7), Submit rejects] (idle_queue world0)) = world0"
  by (simp_all add: run_def submit_def processQueue_def loop_head_def idle_queue_def Let_def)

lemma burst_outcomes:
  "map snd (settled (run 100 (map Submit [resolves 7, rejects, resolves 9]
                               @ replicate 6 (Settle 0)) (idle_queue world0)))
     = [Inr 7, Inl (Error ''rejected''), Inr 9]"
  by (simp add: run_def submit_def processQueue_def loop_head_def settle_def resume_def
      idle_queue_def Let_def resolves_def rejects_def numeral_eq_Suc)

theorem queue_fifo_witness:
  "running (run 100 [Submit (resolves 7), Submit rejects] (idle_queue world0)) ! 0
     = AwaitOperation 0 (resolves 7)
   \<and> settled (step 100 (run 100 [Submit (resolves 7), Submit rejects] (idle_queue world0))
               (Settle 0)) = [(0, Inr 7)]
   \<and> map fst (settled (run 100 ([Submit (resolves 7), Submit rejects] @ replicate 4 (Settle 0))
                          (idle_queue world0))) = [0, 1]
   \<and> running (run 100 ([] :: (nat, nat) event list) (idle_queue world0)) = []
   \<and> running (step 100 (run 100 [] (idle_queue world0)) (Submit rejects))
       = [AwaitOperation 0 rejects]
   \<and> timer_free (resolves 7) \<and> timer_free rejects \<and> timer_free (resolves 9)
   \<and> timers (world_of (run 100 (map Submit [resolves 7, rejects, resolves 9]
                                 @ replicate 6 (Settle 0)) (idle_queue world0))) = [100, 100]
   \<and> map snd (settled (run 100 (map Submit [resolves 7, rejects, resolves 9]
                                 @ replicate 6 (Settle 0)) (idle_queue world0)))
       = [Inr 7, Inl (Error ''rejected''), Inr 9]"
proof -
  let ?events = "[Submit (resolves 7), Submit rejects]"
  let ?ops = "[resolves 7, rejects, resolves 9]"
  note res = queue_fifo [where d = 100 and events = ?events and w = world0 and ops = ?ops]
  have a: "running (run 100 ?events (idle_queue world0)) ! 0 = AwaitOperation 0 (resolves 7)"
    by (simp add: two_submitted)
  have len: "0 < length (running (run 100 ?events (idle_queue world0)))"
    by (simp add: two_submitted)
  from res have "\<forall>k t operation.
         k < length (running (run 100 ?events (idle_queue world0)))
         \<and> running (run 100 ?events (idle_queue world0)) ! k = AwaitOperation t operation \<longrightarrow>
           settled (step 100 (run 100 ?events (idle_queue world0)) (Settle k))
               = settled (run 100 ?events (idle_queue world0))
                 @ [(t, fst (operation (world_of (run 100 ?events (idle_queue world0)))))]"
    by blast
  from this [rule_format, of 0 0 "resolves 7"] len a
  have b: "settled (step 100 (run 100 ?events (idle_queue world0)) (Settle 0)) = [(0, Inr 7)]"
    by (simp add: two_submitted resolves_def)
  from res have "\<forall>n. 2 * length (submitted (run 100 ?events (idle_queue world0))) \<le> n \<longrightarrow>
         map fst (settled (run 100 (?events @ replicate n (Settle 0)) (idle_queue world0)))
             = [0..<length (submitted (run 100 ?events (idle_queue world0)))]"
    by blast
  from this [rule_format, of 4]
  have c: "map fst (settled (run 100 (?events @ replicate 4 (Settle 0)) (idle_queue world0)))
      = [0, 1]"
    by (simp add: two_submitted upt_rec)
  have tf: "\<forall>operation\<in>set ?ops. timer_free operation"
    by (simp add: timer_free_def resolves_def rejects_def)
  from res tf
  have "timers (world_of (run 100 (map Submit ?ops @ replicate (2 * length ?ops) (Settle 0))
                             (idle_queue world0)))
           = timers world0 @ replicate (length ?ops - 1) 100"
    by blast
  then have e: "timers (world_of (run 100 (map Submit ?ops @ replicate 6 (Settle 0))
      (idle_queue world0))) = [100, 100]"
    by (simp add: world0_def numeral_eq_Suc)
  let ?none = "[] :: (nat, nat) event list"
  have idle: "running (run 100 ?none (idle_queue world0)) = []"
    by (simp add: run_def idle_queue_def)
  note at_once = queue_fifo [where d = 100 and events = ?none and w = world0 and ops = ?ops,
      THEN conjunct2, THEN conjunct2, THEN conjunct2, THEN conjunct2, THEN conjunct2,
      THEN conjunct2, THEN conjunct2, THEN conjunct1, THEN mp, OF idle]
  from at_once [rule_format, of rejects]
  have once: "running (step 100 (run 100 [] (idle_queue world0)) (Submit rejects))
      = [AwaitOperation 0 rejects]"
    by (simp add: run_def idle_queue_def)
  from tf have tf3: "timer_free (resolves 7)" "timer_free rejects" "timer_free (resolves 9)"
    by simp_all
  show ?thesis
    by (intro conjI a b c idle once tf3 e burst_outcomes)
qed


end
